theory Spec2Isabelle
  imports Complex_Main "HOL-Library.Word" "HOL-Library.Product_Lexorder"
begin

unbundle bit_operations_syntax

section \<open>The Sokoban engine (Sokoban.hpp)\<close>

subsection \<open>Types and constants\<close>

text \<open>
  \<open>DirectionInt\<close> and \<open>PosInt\<close> are \<open>uint_least8_t\<close>: 8-bit words.
  \<open>MazeInt\<close> (\<open>int_least8_t\<close>) and \<open>SizeInt\<close> (\<open>int_least16_t\<close>) are modelled as
  \<open>int\<close>: the constructor rejects every maze with a coordinate of 125 or more, C++
  computes \<open>line + movement.first\<close> in \<open>int\<close>, and all coordinates the engine forms
  lie between \<open>-2\<close> and \<open>126\<close>, floor indices below \<open>125 * 125\<close>.
  \<open>TimeInt\<close> is \<open>uint_least64_t\<close>, a 64-bit word that wraps.
  \<open>StateType\<close> is \<open>std::bitset<StateBits>\<close>: a word whose length is the template
  parameter.  \<open>std::set<Pos>\<close> is a set of pairs, iterated in the lexicographic
  order of \<open>std::pair\<close> (\<open>sorted_list_of_set\<close>).
\<close>

datatype Error = Error string

type_synonym DirectionInt = "8 word"
type_synonym PosInt = "8 word"
type_synonym Pos = "int \<times> int"

definition NoDirection :: DirectionInt where "NoDirection = 0"
definition Up :: DirectionInt where "Up = 1"
definition Left :: DirectionInt where "Left = 2"
definition Right :: DirectionInt where "Right = 4"
definition Down :: DirectionInt where "Down = 8"

definition IsWall :: PosInt where "IsWall = 0"
definition IsFloor :: PosInt where "IsFloor = 1"
definition IsGoal :: PosInt where "IsGoal = 2"
definition IsBox :: PosInt where "IsBox = 4"
definition IsPlayer :: PosInt where "IsPlayer = 8"

record (overloaded) ('s::len) Game =
  Succeeded :: bool
  Failed :: bool
  Directions :: DirectionInt
  Height :: int
  Width :: int
  FloorBits :: nat
  Finished :: int
  State :: "'s word"
  TimeElapsed :: "64 word"
  PlayerPos0 :: Pos
  PlayerPos :: Pos
  BoxPos0 :: "Pos set"
  BoxPos :: "Pos set"
  GoalPos :: "Pos set"
  Maze :: "PosInt list list"
  FloorIndex :: "int list list"
  StateHistory :: "'s word set"

definition Movement :: "DirectionInt \<Rightarrow> Pos" where
  "Movement direction =
     (if direction = Up then (-1, 0)
      else if direction = Left then (0, -1)
      else if direction = Right then (0, 1)
      else if direction = Down then (1, 0)
      else (0, 0))"

subsection \<open>Legality\<close>

text \<open>
  \<open>at2 m line col\<close> is the C++ \<open>m[line][col]\<close> on a vector of vectors.  The source
  indexes without a bounds check; every read the engine makes is guarded by
  \<open>CheckFloor\<close> or is at a box, goal or player cell, which lie on the floor.
\<close>

definition at2 :: "'a list list \<Rightarrow> int \<Rightarrow> int \<Rightarrow> 'a" where
  "at2 m line col = m ! nat line ! nat col"

definition CheckFloor :: "('s::len) Game \<Rightarrow> int \<Rightarrow> int \<Rightarrow> bool" where
  "CheckFloor g line col =
     (if line < 0 \<or> line \<ge> Height g then False
      else if col < 0 \<or> col \<ge> Width g then False
      else at2 (FloorIndex g) line col \<ge> 0)"

function CheckDirection :: "('s::len) Game \<Rightarrow> DirectionInt \<Rightarrow> int \<Rightarrow> int \<Rightarrow> bool \<Rightarrow> bool" where
  "CheckDirection g direction line col can_push_box =
     (let movement = Movement direction in
      if \<not> CheckFloor g (line + fst movement) (col + snd movement) then False
      else if at2 (Maze g) (line + fst movement) (col + snd movement) AND IsBox \<noteq> 0 then
        (if can_push_box then
           (if \<not> CheckDirection g direction (line + fst movement) (col + snd movement) False
            then False else True)
         else False)
      else True)"
  by pat_completeness auto
termination
  by (relation "measure (\<lambda>(g, d, l, c, b). if b then 1 else 0)") auto


subsection \<open>Dead-position detection\<close>

text \<open>
  \<open>BoxStuck\<close> threads the visited set \<open>vis\<close>, which the source passes by reference:
  the function returns its verdict together with the set as the call leaves it.
\<close>

function BoxStuck :: "('s::len) Game \<Rightarrow> int \<Rightarrow> int \<Rightarrow> bool \<Rightarrow> (Pos \<times> bool) set \<Rightarrow> bool \<times> (Pos \<times> bool) set" where
  "BoxStuck g line col is_horizontal vis =
     (let current = ((line, col), is_horizontal) in
      if current \<in> vis then (True, vis - {current})
      else
        let vis1 = insert current vis in
        if is_horizontal then
          (if \<not> CheckFloor g line (col - 1) \<or> \<not> CheckFloor g line (col + 1) then (True, vis1 - {current})
           else
             let (r1, vis2) =
               (if at2 (Maze g) line (col - 1) AND IsBox \<noteq> 0
                then BoxStuck g line (col - 1) (\<not> is_horizontal) vis1 else (False, vis1)) in
             if r1 then (True, vis2 - {current})
             else
               let (r2, vis3) =
                 (if at2 (Maze g) line (col + 1) AND IsBox \<noteq> 0
                  then BoxStuck g line (col + 1) (\<not> is_horizontal) vis2 else (False, vis2)) in
               (r2, vis3 - {current}))
        else
          (if \<not> CheckFloor g (line - 1) col \<or> \<not> CheckFloor g (line + 1) col then (True, vis1 - {current})
           else
             let (r1, vis2) =
               (if at2 (Maze g) (line - 1) col AND IsBox \<noteq> 0
                then BoxStuck g (line - 1) col (\<not> is_horizontal) vis1 else (False, vis1)) in
             if r1 then (True, vis2 - {current})
             else
               let (r2, vis3) =
                 (if at2 (Maze g) (line + 1) col AND IsBox \<noteq> 0
                  then BoxStuck g (line + 1) col (\<not> is_horizontal) vis2 else (False, vis2)) in
               (r2, vis3 - {current})))"
  by pat_completeness auto

lemma BoxStuck_False_vis:
  "BoxStuck_dom (g, l, c, h, vis) \<Longrightarrow> \<not> fst (BoxStuck g l c h vis) \<Longrightarrow> snd (BoxStuck g l c h vis) = vis"
proof (induction g l c h vis rule: BoxStuck.pinduct)
  case (1 g line col is_horizontal vis)
  note ps = BoxStuck.psimps [OF "1.hyps"]
  show ?case using "1.prems" "1.IH"
    apply (subst ps)
    apply (subst (asm) ps)
    apply (auto simp: Let_def split: if_splits prod.splits)
    done
qed

lemma finite_floor: "finite {(p::Pos, b::bool). CheckFloor g (fst p) (snd p)}"
proof -
  have "{(p::Pos, b::bool). CheckFloor g (fst p) (snd p)} \<subseteq> ({0..<Height g} \<times> {0..<Width g}) \<times> UNIV"
    by (auto simp: CheckFloor_def split: if_splits)
  then show ?thesis by (rule finite_subset) simp
qed

lemma vis_measure_step:
  assumes "finite F" "x \<notin> vis" "q \<in> F" "insert x vis \<subseteq> vis'"
  shows "card ((F \<union> {q}) - vis') < card ((F \<union> {x}) - vis)"
proof -
  have "(F \<union> {q}) - vis' \<subset> (F \<union> {x}) - vis"
    using assms by auto
  moreover have "finite ((F \<union> {x}) - vis)" using assms(1) by simp
  ultimately show ?thesis by (rule psubset_card_mono [rotated])
qed

lemma BoxStuck_measure_step:
  assumes "((l, c), h::bool) \<notin> vis" "CheckFloor g l' c'"
  shows "((g, l', c', h', insert ((l, c), h) vis), (g, l, c, h, vis))
         \<in> measure (\<lambda>(g, l, c, h, vis). card (({(p, b). CheckFloor g (fst p) (snd p)} \<union> {((l, c), h)}) - vis))"
proof -
  have "((l', c'), h') \<in> {(p, b). CheckFloor g (fst p) (snd p)}"
    using assms(2) by simp
  from vis_measure_step [OF finite_floor assms(1) this subset_refl]
  show ?thesis by simp
qed

termination BoxStuck
proof (relation "measure (\<lambda>(g, l, c, h, vis). card (({(p, b). CheckFloor g (fst p) (snd p)} \<union> {((l, c), h)}) - vis))", goal_cases)
  case 1
  show ?case by simp
next
  case (2 g line col is_horizontal vis x xa)
  from 2(5) have "CheckFloor g line (col - 1)" by simp
  from BoxStuck_measure_step [OF 2(2) [unfolded 2(1)] this]
  show ?case unfolding 2(3) 2(1) .
next
  case (3 g line col is_horizontal vis x xa xb xaa y)
  have "y = xa"
  proof (cases "at2 (Maze g) line (col - 1) AND IsBox \<noteq> 0")
    case True
    with 3 have d: "BoxStuck_dom (g, line, col - 1, \<not> is_horizontal, xa)"
      and e: "BoxStuck g line (col - 1) (\<not> is_horizontal) xa = (xaa, y)" by simp_all
    from BoxStuck_False_vis [OF d] e \<open>\<not> xaa\<close> show ?thesis by simp
  next
    case False
    with 3(6,7) show ?thesis by simp
  qed
  from 3(5) have "CheckFloor g line (col + 1)" by simp
  from BoxStuck_measure_step [OF 3(2) [unfolded 3(1)] this]
  show ?case unfolding \<open>y = xa\<close> 3(3) 3(1) .
next
  case (4 g line col is_horizontal vis x xa)
  from 4(5) have "CheckFloor g (line - 1) col" by simp
  from BoxStuck_measure_step [OF 4(2) [unfolded 4(1)] this]
  show ?case unfolding 4(3) 4(1) .
next
  case (5 g line col is_horizontal vis x xa xb xaa y)
  have "y = xa"
  proof (cases "at2 (Maze g) (line - 1) col AND IsBox \<noteq> 0")
    case True
    with 5 have d: "BoxStuck_dom (g, line - 1, col, \<not> is_horizontal, xa)"
      and e: "BoxStuck g (line - 1) col (\<not> is_horizontal) xa = (xaa, y)" by simp_all
    from BoxStuck_False_vis [OF d] e \<open>\<not> xaa\<close> show ?thesis by simp
  next
    case False
    with 5(6,7) show ?thesis by simp
  qed
  from 5(5) have "CheckFloor g (line + 1) col" by simp
  from BoxStuck_measure_step [OF 5(2) [unfolded 5(1)] this]
  show ?case unfolding \<open>y = xa\<close> 5(3) 5(1) .
qed

text \<open>
  The four scanning loops of \<open>WallStuck\<close>.  Each returns \<open>None\<close> where the source
  leaves the function with \<open>return false\<close>, and the two counters otherwise.
\<close>

function WallStuck_left :: "('s::len) Game \<Rightarrow> int \<Rightarrow> int \<Rightarrow> int \<Rightarrow> int \<times> int \<Rightarrow> (int \<times> int) option" where
  "WallStuck_left g line mfirst p (box_count, goal_count) =
     (if CheckFloor g line p then
        (if CheckFloor g (line - mfirst) p then None
         else WallStuck_left g line mfirst (p - 1)
                (if at2 (Maze g) line p AND IsBox \<noteq> 0 then box_count + 1 else box_count,
                 if at2 (Maze g) line p AND IsGoal \<noteq> 0 then goal_count + 1 else goal_count))
      else Some (box_count, goal_count))"
  by pat_completeness auto
termination
  by (relation "measure (\<lambda>(g, line, mfirst, p, c). nat (p + 1))")
     (auto simp: CheckFloor_def split: if_splits)

function WallStuck_right :: "('s::len) Game \<Rightarrow> int \<Rightarrow> int \<Rightarrow> int \<Rightarrow> int \<times> int \<Rightarrow> (int \<times> int) option" where
  "WallStuck_right g line mfirst p (box_count, goal_count) =
     (if CheckFloor g line p then
        (if CheckFloor g (line - mfirst) p then None
         else WallStuck_right g line mfirst (p + 1)
                (if at2 (Maze g) line p AND IsBox \<noteq> 0 then box_count + 1 else box_count,
                 if at2 (Maze g) line p AND IsGoal \<noteq> 0 then goal_count + 1 else goal_count))
      else Some (box_count, goal_count))"
  by pat_completeness auto
termination
  by (relation "measure (\<lambda>(g, line, mfirst, p, c). nat (Width g - p))")
     (auto simp: CheckFloor_def split: if_splits)

function WallStuck_up :: "('s::len) Game \<Rightarrow> int \<Rightarrow> int \<Rightarrow> int \<Rightarrow> int \<times> int \<Rightarrow> (int \<times> int) option" where
  "WallStuck_up g col msecond p (box_count, goal_count) =
     (if CheckFloor g p col then
        (if CheckFloor g p (col - msecond) then None
         else WallStuck_up g col msecond (p - 1)
                (if at2 (Maze g) p col AND IsBox \<noteq> 0 then box_count + 1 else box_count,
                 if at2 (Maze g) p col AND IsGoal \<noteq> 0 then goal_count + 1 else goal_count))
      else Some (box_count, goal_count))"
  by pat_completeness auto
termination
  by (relation "measure (\<lambda>(g, col, msecond, p, c). nat (p + 1))")
     (auto simp: CheckFloor_def split: if_splits)

function WallStuck_down :: "('s::len) Game \<Rightarrow> int \<Rightarrow> int \<Rightarrow> int \<Rightarrow> int \<times> int \<Rightarrow> (int \<times> int) option" where
  "WallStuck_down g col msecond p (box_count, goal_count) =
     (if CheckFloor g p col then
        (if CheckFloor g p (col - msecond) then None
         else WallStuck_down g col msecond (p + 1)
                (if at2 (Maze g) p col AND IsBox \<noteq> 0 then box_count + 1 else box_count,
                 if at2 (Maze g) p col AND IsGoal \<noteq> 0 then goal_count + 1 else goal_count))
      else Some (box_count, goal_count))"
  by pat_completeness auto
termination
  by (relation "measure (\<lambda>(g, col, msecond, p, c). nat (Height g - p))")
     (auto simp: CheckFloor_def split: if_splits)

definition WallStuck :: "('s::len) Game \<Rightarrow> int \<Rightarrow> int \<Rightarrow> DirectionInt \<Rightarrow> bool" where
  "WallStuck g line col side =
     (let box_count = (if at2 (Maze g) line col AND IsBox \<noteq> 0 then 1 else 0);
          goal_count = (if at2 (Maze g) line col AND IsGoal \<noteq> 0 then 1 else 0);
          movement = Movement side
      in if fst movement \<noteq> 0 then
           (case WallStuck_left g line (fst movement) (col - 1) (box_count, goal_count) of
              None \<Rightarrow> False
            | Some counts \<Rightarrow>
                (case WallStuck_right g line (fst movement) (col + 1) counts of
                   None \<Rightarrow> False
                 | Some (box_count, goal_count) \<Rightarrow> box_count > goal_count))
         else
           (case WallStuck_up g col (snd movement) (line - 1) (box_count, goal_count) of
              None \<Rightarrow> False
            | Some counts \<Rightarrow>
                (case WallStuck_down g col (snd movement) (line + 1) counts of
                   None \<Rightarrow> False
                 | Some (box_count, goal_count) \<Rightarrow> box_count > goal_count)))"

text \<open>
  \<open>CanPushAny\<close> with its loop over the four directions.  \<open>ret || CanPushAny(...)\<close>
  does not make the recursive call once \<open>ret\<close> is true.
\<close>

function CanPushAny :: "('s::len) Game \<Rightarrow> int \<Rightarrow> int \<Rightarrow> Pos set \<Rightarrow> bool \<times> Pos set"
  and CanPushAny_loop :: "('s::len) Game \<Rightarrow> int \<Rightarrow> int \<Rightarrow> DirectionInt list \<Rightarrow> bool \<Rightarrow> Pos set \<Rightarrow> bool \<times> Pos set"
where
  "CanPushAny g line col vis =
     (if (line, col) \<in> vis then (False, vis)
      else CanPushAny_loop g line col [Up, Left, Right, Down] False (insert (line, col) vis))"
| "CanPushAny_loop g line col [] ret vis = (ret, vis)"
| "CanPushAny_loop g line col (d # ds) ret vis =
     (let movement = Movement d;
          (ret', vis') =
            (if CheckDirection g d line col False then
               (if ret then (ret, vis)
                else CanPushAny g (line + fst movement) (col + snd movement) vis)
             else (ret \<or> CheckDirection g d line col True, vis))
      in CanPushAny_loop g line col ds ret' vis')"
  by pat_completeness auto

lemma CanPushAny_vis_mono:
  "CanPushAny_CanPushAny_loop_dom (Inl (g, line, col, vis)) \<Longrightarrow> vis \<subseteq> snd (CanPushAny g line col vis)"
  "CanPushAny_CanPushAny_loop_dom (Inr (g, line, col, ds, ret, vis)) \<Longrightarrow> vis \<subseteq> snd (CanPushAny_loop g line col ds ret vis)"
proof (induction g line col vis and g line col ds ret vis rule: CanPushAny_CanPushAny_loop.pinduct)
  case (1 g line col vis)
  then show ?case
    by (auto simp: CanPushAny.psimps)
next
  case (2 g line col ret vis)
  then show ?case by (simp add: CanPushAny_loop.psimps)
next
  case (3 g line col d ds ret vis)
  show ?case
    using "3.IH" "3.hyps"
    apply (subst CanPushAny_loop.psimps(2) [OF "3.hyps"])
    apply (auto simp: Let_def split: if_splits prod.splits)
    apply (metis prod.collapse subsetD)
    done
qed


lemma finite_floor_cells: "finite {p::Pos. CheckFloor g (fst p) (snd p)}"
proof -
  have "{p::Pos. CheckFloor g (fst p) (snd p)} \<subseteq> {0..<Height g} \<times> {0..<Width g}"
    by (auto simp: CheckFloor_def split: if_splits)
  then show ?thesis by (rule finite_subset) simp
qed


lemma CheckDirection_floor:
  "CheckDirection g d line col b \<Longrightarrow> CheckFloor g (line + fst (Movement d)) (col + snd (Movement d))"
  by (subst (asm) CheckDirection.simps) (simp add: Let_def split: if_splits)

lemma CanPushAny_measure_enter:
  assumes "(l, c) \<notin> vis"
  shows "card ({p. CheckFloor g (fst p) (snd p)} - insert (l, c) vis)
         < card (({p. CheckFloor g (fst p) (snd p)} \<union> {(l, c)}) - vis)"
proof -
  have "{p. CheckFloor g (fst p) (snd p)} - insert (l, c) vis
        \<subset> ({p. CheckFloor g (fst p) (snd p)} \<union> {(l, c)}) - vis"
    using assms by auto
  moreover have "finite (({p. CheckFloor g (fst p) (snd p)} \<union> {(l, c)}) - vis)"
    using finite_floor_cells [of g] by simp
  ultimately show ?thesis by (rule psubset_card_mono [rotated])
qed

lemma CanPushAny_measure_call:
  assumes "CheckFloor g l c"
  shows "({p. CheckFloor g (fst p) (snd p)} \<union> {(l, c)}) - vis = {p. CheckFloor g (fst p) (snd p)} - vis"
  using assms by auto

lemma CanPushAny_measure_next:
  assumes "vis \<subseteq> vis'"
  shows "card ({p. CheckFloor g (fst p) (snd p)} - vis') \<le> card ({p. CheckFloor g (fst p) (snd p)} - vis)"
  by (rule card_mono) (use assms finite_floor_cells [of g] in auto)

termination CanPushAny
proof (relation "measure (case_sum
      (\<lambda>(g, l, c, vis). 6 * card (({p. CheckFloor g (fst p) (snd p)} \<union> {(l, c)}) - vis))
      (\<lambda>(g, l, c, ds, ret, vis). 6 * card ({p. CheckFloor g (fst p) (snd p)} - vis) + length ds + 1))",
    goal_cases)
  case 1
  show ?case by simp
next
  case (2 g line col vis)
  from CanPushAny_measure_enter [OF this, of g]
  show ?case by (simp add: Up_def Left_def Right_def Down_def)
next
  case (3 g line col d ds ret vis x)
  from 3(2) have "CheckFloor g (line + fst x) (col + snd x)"
    unfolding 3(1) by (rule CheckDirection_floor)
  from CanPushAny_measure_call [OF this, of vis]
  show ?case by simp
next
  case (4 g line col d ds ret vis x xa xb y)
  have "vis \<subseteq> y"
  proof (cases "CheckDirection g d line col False \<and> \<not> ret")
    case True
    with 4 have d: "CanPushAny_CanPushAny_loop_dom (Inl (g, line + fst x, col + snd x, vis))"
      and e: "CanPushAny g (line + fst x) (col + snd x) vis = (xb, y)" by simp_all
    from CanPushAny_vis_mono(1) [OF d] e show ?thesis by simp
  next
    case False
    with 4(2,3) show ?thesis by (auto split: if_splits)
  qed
  from CanPushAny_measure_next [OF this, of g]
  show ?case by simp
qed

definition CheckFailed_box :: "('s::len) Game \<Rightarrow> Pos \<Rightarrow> bool" where
  "CheckFailed_box g b =
     (let stuck_vertical = fst (BoxStuck g (fst b) (snd b) False {});
          stuck_horizontal = fst (BoxStuck g (fst b) (snd b) True {})
      in if at2 (Maze g) (fst b) (snd b) \<noteq> (IsFloor OR IsGoal OR IsBox) then
           (if stuck_vertical \<and> stuck_horizontal then True
            else if stuck_vertical \<and>
                    ((\<not> CheckFloor g (fst b - 1) (snd b) \<and> WallStuck g (fst b) (snd b) Down) \<or>
                     (\<not> CheckFloor g (fst b + 1) (snd b) \<and> WallStuck g (fst b) (snd b) Up)) then True
            else if stuck_horizontal \<and>
                    ((\<not> CheckFloor g (fst b) (snd b - 1) \<and> WallStuck g (fst b) (snd b) Right) \<or>
                     (\<not> CheckFloor g (fst b) (snd b + 1) \<and> WallStuck g (fst b) (snd b) Left)) then True
            else False)
         else False)"

fun CheckFailed_boxes :: "('s::len) Game \<Rightarrow> Pos list \<Rightarrow> bool" where
  "CheckFailed_boxes g [] = False"
| "CheckFailed_boxes g (b # bs) = (if CheckFailed_box g b then True else CheckFailed_boxes g bs)"

definition CheckFailed :: "('s::len) Game \<Rightarrow> bool" where
  "CheckFailed g =
     (if Finished g = int (card (BoxPos0 g)) then False
      else if Directions g = 0 then True
      else if CheckFailed_boxes g (sorted_list_of_set (BoxPos g)) then True
      else if \<not> fst (CanPushAny g (fst (PlayerPos g)) (snd (PlayerPos g)) {}) then True
      else False)"


subsection \<open>Recomputing the derived fields\<close>

text \<open>
  \<open>or2 m p v\<close> is \<open>m[p.first][p.second] |= v\<close> and \<open>set2 m p v\<close> is
  \<open>m[p.first][p.second] = v\<close>.  \<open>StateType_of v\<close> is the conversion
  \<open>StateType(v)\<close>: the \<open>SizeInt\<close> becomes an \<open>unsigned long long\<close> (64 bits), of
  which the bitset keeps the bits that fit.  \<open>operator<<\<close> of a bitset drops the
  bits shifted out, as \<open>push_bit\<close> on a word does.
\<close>

definition or2 :: "PosInt list list \<Rightarrow> Pos \<Rightarrow> PosInt \<Rightarrow> PosInt list list" where
  "or2 m p v = m[nat (fst p) := (m ! nat (fst p))[nat (snd p) := at2 m (fst p) (snd p) OR v]]"

definition set2 :: "'a list list \<Rightarrow> Pos \<Rightarrow> 'a \<Rightarrow> 'a list list" where
  "set2 m p v = m[nat (fst p) := (m ! nat (fst p))[nat (snd p) := v]]"

definition StateType_of :: "int \<Rightarrow> ('s::len) word" where
  "StateType_of v = word_of_int (v mod 2 ^ 64)"

definition UpdateData_floor :: "('s::len) Game \<Rightarrow> PosInt list list" where
  "UpdateData_floor g =
     map (\<lambda>i. map (\<lambda>j. if at2 (FloorIndex g) i j \<ge> 0 then IsFloor else IsWall) [0..Width g - 1])
       [0..Height g - 1]"

fun UpdateData_goals :: "Pos list \<Rightarrow> PosInt list list \<Rightarrow> PosInt list list" where
  "UpdateData_goals [] maze = maze"
| "UpdateData_goals (i # rest) maze = UpdateData_goals rest (or2 maze i IsGoal)"

fun UpdateData_boxes ::
  "('s::len) Game \<Rightarrow> Pos list \<Rightarrow> PosInt list list \<times> int \<times> 's word \<times> nat
     \<Rightarrow> PosInt list list \<times> int \<times> 's word \<times> nat" where
  "UpdateData_boxes g [] acc = acc"
| "UpdateData_boxes g (i # rest) (maze, finished, state, offset) =
     (let maze1 = or2 maze i IsBox;
          finished1 = (if at2 maze1 (fst i) (snd i) = (IsFloor OR IsGoal OR IsBox)
                       then finished + 1 else finished);
          offset1 = offset + 1;
          state1 = state OR push_bit (FloorBits g * offset1)
                              (StateType_of (at2 (FloorIndex g) (fst i) (snd i)))
      in UpdateData_boxes g rest (maze1, finished1, state1, offset1))"

definition UpdateData_directions :: "('s::len) Game \<Rightarrow> DirectionInt" where
  "UpdateData_directions g =
     fold (\<lambda>d dirs. if CheckDirection g d (fst (PlayerPos g)) (snd (PlayerPos g)) True
                     then dirs OR d else dirs)
       [Up, Left, Right, Down] NoDirection"

definition UpdateData :: "('s::len) Game \<Rightarrow> 's Game" where
  "UpdateData g =
     (let maze0 = UpdateData_goals (sorted_list_of_set (GoalPos g)) (UpdateData_floor g);
          state0 = StateType_of (at2 (FloorIndex g) (fst (PlayerPos g)) (snd (PlayerPos g)));
          (maze1, finished, state, offset) =
             UpdateData_boxes g (sorted_list_of_set (BoxPos g)) (maze0, 0, state0, 0);
          g1 = g\<lparr>Maze := or2 maze1 (PlayerPos g) IsPlayer, Finished := finished, State := state\<rparr>;
          g2 = g1\<lparr>Directions := UpdateData_directions g1\<rparr>;
          g3 = g2\<lparr>Succeeded := (Finished g2 = int (card (BoxPos0 g2)))\<rparr>
      in g3\<lparr>Failed := CheckFailed g3\<rparr>)"

subsection \<open>Restart and Move\<close>

definition DoRestart :: "('s::len) Game \<Rightarrow> 's Game" where
  "DoRestart g =
     UpdateData (g\<lparr>TimeElapsed := 0, StateHistory := {}, PlayerPos := PlayerPos0 g, BoxPos := BoxPos0 g\<rparr>)"

text \<open>\<open>DoMove\<close> returns the flag \<open>pushed\<close> and the game as the call leaves it.\<close>

definition DoMove :: "('s::len) Game \<Rightarrow> DirectionInt \<Rightarrow> bool \<times> 's Game" where
  "DoMove g direction =
     (if Directions g AND direction = 0 then (False, g)
      else
        let movement = Movement direction in
        if fst movement = snd movement then (False, g)
        else
          let g1 = g\<lparr>TimeElapsed := TimeElapsed g + 1,
                      StateHistory := insert (State g) (StateHistory g),
                      PlayerPos := (fst (PlayerPos g) + fst movement, snd (PlayerPos g) + snd movement)\<rparr>
          in if PlayerPos g1 \<in> BoxPos g1 then
               (let p = (fst (PlayerPos g1) + fst movement, snd (PlayerPos g1) + snd movement)
                in (True, UpdateData (g1\<lparr>BoxPos := insert p (BoxPos g1 - {PlayerPos g1})\<rparr>)))
             else (False, UpdateData g1))"

definition Restart :: "('s::len) Game \<Rightarrow> 's Game" where
  "Restart g = DoRestart g"

definition Move :: "('s::len) Game \<Rightarrow> DirectionInt \<Rightarrow> bool \<times> 's Game" where
  "Move g direction = DoMove g direction"

subsection \<open>The constructor\<close>

text \<open>
  The constructor works on the object under construction and on its locals \<open>floor\<close>
  (\<open>floor_queue\<close> below: a queue, filled at the back and emptied from the front), \<open>line\<close> and \<open>col\<close>.
  A \<open>throw\<close> is the value \<open>Inl\<close>.  \<open>Game_empty\<close> is the object before the body runs:
  empty containers; every scalar is written before it is read.
\<close>

definition Game_empty :: "('s::len) Game" where
  "Game_empty =
     \<lparr>Succeeded = False, Failed = False, Directions = 0, Height = 0, Width = 0, FloorBits = 0,
      Finished = 0, State = 0, TimeElapsed = 0, PlayerPos0 = (0, 0), PlayerPos = (0, 0),
      BoxPos0 = {}, BoxPos = {}, GoalPos = {}, Maze = [], FloorIndex = [], StateHistory = {}\<rparr>"

definition Game_cell :: "char \<Rightarrow> ('s::len) Game \<times> Pos list \<times> int \<times> int
    \<Rightarrow> Error + ('s Game \<times> Pos list \<times> int \<times> int)" where
  "Game_cell c st =
     (case st of (g, floor_queue, line, col) \<Rightarrow>
        if c = CHR ''.'' then Inr (g, floor_queue @ [(line, col)], line, col)
        else if c = CHR ''*'' then
          (if fst (PlayerPos0 g) + snd (PlayerPos0 g) \<ge> 0 then Inl (Error ''Too Many Players'')
           else Inr (g\<lparr>PlayerPos0 := (line, col)\<rparr>, floor_queue @ [(line, col)], line, col))
        else if c = CHR ''$'' then
          Inr (g\<lparr>GoalPos := insert (line, col) (GoalPos g)\<rparr>, floor_queue @ [(line, col)], line, col)
        else if c = CHR ''&'' then
          Inr (g\<lparr>BoxPos0 := insert (line, col) (BoxPos0 g)\<rparr>, floor_queue @ [(line, col)], line, col)
        else if c = CHR ''+'' then
          (if fst (PlayerPos0 g) + snd (PlayerPos0 g) \<ge> 0 then Inl (Error ''Too Many Players'')
           else Inr (g\<lparr>PlayerPos0 := (line, col), GoalPos := insert (line, col) (GoalPos g)\<rparr>,
                     floor_queue @ [(line, col)], line, col))
        else if c = CHR ''@'' then
          Inr (g\<lparr>BoxPos0 := insert (line, col) (BoxPos0 g), GoalPos := insert (line, col) (GoalPos g)\<rparr>,
               floor_queue @ [(line, col)], line, col)
        else Inr (g, floor_queue, line, col))"

definition Game_char :: "char \<Rightarrow> ('s::len) Game \<times> Pos list \<times> int \<times> int
    \<Rightarrow> Error + ('s Game \<times> Pos list \<times> int \<times> int)" where
  "Game_char c st =
     (case st of (g, floor_queue, line, col) \<Rightarrow>
        if c = CHR 0x0D then Inr (g, floor_queue, line, col)
        else if c = CHR 0x0A then
          (let line = line + 1; col = -1 in
           if line \<ge> 125 then Inl (Error ''Maze Too Large'')
           else Inr (if line \<ge> Height g then g\<lparr>Height := line + 1\<rparr> else g, floor_queue, line, col))
        else
          (let col = col + 1 in
           if col \<ge> 125 then Inl (Error ''Maze Too Large'')
           else Game_cell c (if col \<ge> Width g then g\<lparr>Width := col + 1\<rparr> else g, floor_queue, line, col)))"

fun Game_chars :: "string \<Rightarrow> ('s::len) Game \<times> Pos list \<times> int \<times> int
    \<Rightarrow> Error + ('s Game \<times> Pos list \<times> int \<times> int)" where
  "Game_chars [] st = Inr st"
| "Game_chars (c # cs) st = (case Game_char c st of Inl e \<Rightarrow> Inl e | Inr st' \<Rightarrow> Game_chars cs st')"

text \<open>
  The loop \<open>for (floor_remain = floor.size() - 1; floor_remain; floor_remain >>= 1) ++FloorBits\<close>.
  It runs after the player has been found, so \<open>floor\<close> is not empty and
  \<open>floor.size() - 1\<close> is a natural number.
\<close>

fun FloorBits_loop :: "nat \<Rightarrow> nat \<Rightarrow> nat" where
  "FloorBits_loop floor_remain bits =
     (if floor_remain \<noteq> 0 then FloorBits_loop (floor_remain div 2) (bits + 1) else bits)"

fun FloorIndex_fill :: "Pos list \<Rightarrow> int \<Rightarrow> int list list \<Rightarrow> int list list" where
  "FloorIndex_fill [] index fi = fi"
| "FloorIndex_fill (p # floor_queue) index fi = FloorIndex_fill floor_queue (index + 1) (set2 fi p (index + 1))"

definition trim_newlines :: "string \<Rightarrow> string" where
  "trim_newlines maze =
     rev (dropWhile (\<lambda>c. c = CHR 0x0A) (rev (dropWhile (\<lambda>c. c = CHR 0x0A) maze)))"

definition Game :: "string \<Rightarrow> Error + ('s::len) Game" where
  "Game maze =
     (case Game_chars (trim_newlines maze)
             (Game_empty\<lparr>PlayerPos0 := (-1, -1), Height := 1, Width := 0\<rparr>, [], 0, -1) of
        Inl e \<Rightarrow> Inl e
      | Inr (g, floor_queue, line, col) \<Rightarrow>
          if fst (PlayerPos0 g) + snd (PlayerPos0 g) = -2 then Inl (Error ''No Player'')
          else if BoxPos0 g = {} then Inl (Error ''No Box'')
          else if card (BoxPos0 g) > card (GoalPos g) then Inl (Error ''Too Few Goals'')
          else
            let g1 = g\<lparr>FloorBits := FloorBits_loop (length floor_queue - 1) 0\<rparr> in
            if FloorBits g1 * (card (BoxPos0 g1) + 1) > LENGTH('s) then Inl (Error ''Maze Too Large'')
            else
              Inr (DoRestart (g1\<lparr>FloorIndex :=
                     FloorIndex_fill floor_queue (-1)
                       (replicate (nat (Height g1)) (replicate (nat (Width g1)) (-1)))\<rparr>)))"


subsection \<open>Reachable games\<close>

text \<open>
  The games a program can hold: the result of a construction that does not throw, and
  what \<open>Move\<close> and \<open>Restart\<close> make of such a game.
\<close>

inductive reachable :: "('s::len) Game \<Rightarrow> bool" where
  construct: "Game maze = Inr g \<Longrightarrow> reachable g"
| move: "reachable g \<Longrightarrow> Move g d = (pushed, g') \<Longrightarrow> reachable g'"
| restart: "reachable g \<Longrightarrow> reachable (Restart g)"

text \<open>A history of calls on a game, and the game it leaves.\<close>

datatype Call = MoveCall DirectionInt | RestartCall

fun run :: "('s::len) Game \<Rightarrow> Call list \<Rightarrow> 's Game" where
  "run g [] = g"
| "run g (MoveCall d # cs) = run (snd (Move g d)) cs"
| "run g (RestartCall # cs) = run (Restart g) cs"

section \<open>Q-learning (SokobanQLearning.hpp)\<close>

subsection \<open>The Q table\<close>

text \<open>
  \<open>RealType\<close> is a template parameter; the program instantiates it with \<open>float\<close>.
  A finite value of \<open>RealType\<close> is modelled by the real number it denotes.  The
  table and \<open>FindAction\<close> only store and compare such values; the arithmetic of
  \<open>Train\<close>, which rounds, is modelled further below.  A row is a
  \<open>std::array<RealType, 4>\<close>: four numbers, at the indices 0 to 3.  \<open>QTable\<close> is the
  \<open>std::unordered_map\<close> from states to rows; \<open>_map[state]\<close> creates a row of zeros
  where none is stored.
\<close>

type_synonym RowType = "real \<times> real \<times> real \<times> real"
type_synonym 's QTable = "'s word \<rightharpoonup> RowType"

definition Get :: "('s::len) QTable \<Rightarrow> 's word \<Rightarrow> DirectionInt \<Rightarrow> real" where
  "Get Q state action =
     (case Q state of
        None \<Rightarrow> 0
      | Some (r0, r1, r2, r3) \<Rightarrow>
          if action = Up then r0
          else if action = Left then r1
          else if action = Right then r2
          else if action = Down then r3
          else 0)"

definition GetRow :: "('s::len) QTable \<Rightarrow> 's word \<Rightarrow> RowType" where
  "GetRow Q state = (case Q state of Some row \<Rightarrow> row | None \<Rightarrow> (0, 0, 0, 0))"

definition Set :: "('s::len) QTable \<Rightarrow> 's word \<Rightarrow> DirectionInt \<Rightarrow> real \<Rightarrow> 's QTable" where
  "Set Q state action v =
     (case GetRow Q state of (r0, r1, r2, r3) \<Rightarrow>
        if action = Up then Q(state \<mapsto> (v, r1, r2, r3))
        else if action = Left then Q(state \<mapsto> (r0, v, r2, r3))
        else if action = Right then Q(state \<mapsto> (r0, r1, v, r3))
        else if action = Down then Q(state \<mapsto> (r0, r1, r2, v))
        else Q)"

definition SetRow :: "('s::len) QTable \<Rightarrow> 's word \<Rightarrow> RowType \<Rightarrow> 's QTable" where
  "SetRow Q state row = Q(state \<mapsto> row)"

definition Check :: "('s::len) QTable \<Rightarrow> 's word \<Rightarrow> bool" where
  "Check Q state = (Q state \<noteq> None)"

subsection \<open>Action selection\<close>

text \<open>
  The random generator is a template parameter and the two distributions are the
  standard library's.  The model takes them as parameters: \<open>uniform_real rng\<close> is
  \<open>std::uniform_real_distribution<double>(0.0, 1.0)(rng)\<close> and \<open>uniform_int a b rng\<close>
  is \<open>std::uniform_int_distribution<int>(a, b)(rng)\<close>; each returns the number drawn
  and the generator as the draw leaves it.
\<close>

lemma word_and_dec_less: "(a::'a::len word) \<noteq> 0 \<Longrightarrow> unat (a AND (a - 1)) < unat a"
proof -
  assume a: "a \<noteq> 0"
  have "unat (a AND (a - 1)) \<le> unat (a - 1)"
    using word_and_le1 [of a "a - 1"] by (simp add: word_le_nat_alt)
  also have "unat (a - 1) = unat a - 1" using a by (rule unat_minus_one)
  also have "\<dots> < unat a" using a by (simp add: unat_gt_0)
  finally show ?thesis .
qed

text \<open>
  The loop state of \<open>FindAction\<close>: \<open>action_count\<close>, \<open>all_same\<close>, \<open>actions_remain\<close>,
  \<open>last_action\<close>, \<open>current_action\<close>, \<open>last_Q\<close>, \<open>current_Q\<close>, \<open>max_Q\<close>, \<open>choice\<close>.
\<close>

function FindAction_loop ::
  "('s::len) QTable \<Rightarrow> 's word
     \<Rightarrow> int \<times> bool \<times> DirectionInt \<times> DirectionInt \<times> DirectionInt \<times> real \<times> real \<times> real \<times> DirectionInt
     \<Rightarrow> int \<times> bool \<times> DirectionInt \<times> DirectionInt \<times> DirectionInt \<times> real \<times> real \<times> real \<times> DirectionInt"
where
  "FindAction_loop Q state
     (action_count, all_same, actions_remain, last_action, current_action, last_Q, current_Q, max_Q, choice) =
     (if actions_remain \<noteq> 0 then
        FindAction_loop Q state
          (action_count + 1,
           all_same \<and> last_Q = current_Q,
           actions_remain AND (actions_remain - 1),
           current_action,
           (actions_remain AND (actions_remain - 1)) AND - (actions_remain AND (actions_remain - 1)),
           current_Q,
           Get Q state ((actions_remain AND (actions_remain - 1)) AND - (actions_remain AND (actions_remain - 1))),
           (if current_Q > max_Q then current_Q else max_Q),
           (if current_Q > max_Q then current_action else choice))
      else
        (action_count, all_same, actions_remain, last_action, current_action, last_Q, current_Q, max_Q, choice))"
  by pat_completeness auto
termination
  by (relation "measure (\<lambda>(Q, state, c, s, actions_remain, r). unat actions_remain)")
     (auto simp: word_and_dec_less)

text \<open>\<open>while (random_choice--) actions_remain &= actions_remain - 1\<close>, for a count that is not negative.\<close>

fun FindAction_skip :: "nat \<Rightarrow> DirectionInt \<Rightarrow> DirectionInt" where
  "FindAction_skip 0 actions_remain = actions_remain"
| "FindAction_skip (Suc random_choice) actions_remain =
     FindAction_skip random_choice (actions_remain AND (actions_remain - 1))"

definition FindAction ::
  "('r \<Rightarrow> real \<times> 'r) \<Rightarrow> (int \<Rightarrow> int \<Rightarrow> 'r \<Rightarrow> int \<times> 'r) \<Rightarrow> 'r \<Rightarrow> real \<Rightarrow> ('s::len) Game \<Rightarrow> 's QTable
     \<Rightarrow> DirectionInt \<times> 'r" where
  "FindAction uniform_real uniform_int random_generator epsilon game Q =
     (let actions = Directions game in
      if actions = 0 then (NoDirection, random_generator)
      else
        let state = State game;
            actions_remain = actions AND (actions - 1);
            last_action = actions AND - actions;
            current_action = actions_remain AND - actions_remain;
            last_Q = Get Q state last_action;
            current_Q = Get Q state current_action;
            (action_count, all_same, actions_remain, last_action, current_action, last_Q, current_Q, max_Q, choice) =
              FindAction_loop Q state
                (1, True, actions_remain, last_action, current_action, last_Q, current_Q, last_Q, actions AND - actions)
        in if action_count = 1 then (actions, random_generator)
           else
             let (random, rng1) = uniform_real random_generator in
             if all_same \<or> random < epsilon then
               (let (random_choice, rng2) = uniform_int 0 (action_count - 1) rng1;
                    actions_remain = FindAction_skip (nat random_choice) actions
                in (actions_remain AND - actions_remain, rng2))
             else (choice, rng1))"

subsection \<open>The arithmetic of RealType\<close>

text \<open>
  The arithmetic of \<open>RealType\<close> is modelled by a rounding function: \<open>rnd x\<close> is the
  value of \<open>RealType\<close> that an operation with the exact result \<open>x\<close> returns, and \<open>None\<close>
  when that is not a finite value (the operation overflows).  An operation with an
  operand that is not a finite value gives \<open>None\<close>: infinities and NaN are not values
  of the model, and a computation that meets one has no result in it.  \<open>+\<close>, \<open>-\<close>, \<open>*\<close>
  and the conversions from the integer types round, each operation on its own (no
  multiplication is fused with an addition); the unary minus only changes the sign;
  \<open>std::max (a, b)\<close> is \<open>(a < b) ? b : a\<close> and does no arithmetic.
\<close>

type_synonym rounding = "real \<Rightarrow> real option"

definition RealType_add :: "rounding \<Rightarrow> real option \<Rightarrow> real option \<Rightarrow> real option" where
  "RealType_add rnd x y =
     (case x of None \<Rightarrow> None | Some a \<Rightarrow> (case y of None \<Rightarrow> None | Some b \<Rightarrow> rnd (a + b)))"

definition RealType_sub :: "rounding \<Rightarrow> real option \<Rightarrow> real option \<Rightarrow> real option" where
  "RealType_sub rnd x y =
     (case x of None \<Rightarrow> None | Some a \<Rightarrow> (case y of None \<Rightarrow> None | Some b \<Rightarrow> rnd (a - b)))"

definition RealType_mul :: "rounding \<Rightarrow> real option \<Rightarrow> real option \<Rightarrow> real option" where
  "RealType_mul rnd x y =
     (case x of None \<Rightarrow> None | Some a \<Rightarrow> (case y of None \<Rightarrow> None | Some b \<Rightarrow> rnd (a * b)))"

definition RealType_neg :: "real option \<Rightarrow> real option" where
  "RealType_neg x = (case x of None \<Rightarrow> None | Some a \<Rightarrow> Some (- a))"

definition RealType_max :: "real option \<Rightarrow> real option \<Rightarrow> real option" where
  "RealType_max x y =
     (case x of None \<Rightarrow> None
      | Some a \<Rightarrow> (case y of None \<Rightarrow> None | Some b \<Rightarrow> Some (if a < b then b else a)))"

text \<open>
  \<open>float32\<close> is the rounding of \<open>float\<close>, the IEEE 754 binary32 format in the default
  rounding mode: to the nearest value with a 24-bit significand, ties to the even
  significand, with the subnormal values below \<open>2 powi (- 126)\<close> and overflow from
  \<open>2 ^ 128 - 2 ^ 103\<close> on.  \<open>binade x\<close> is the exponent of the binade of \<open>x\<close>, between
  \<open>- 126\<close> and \<open>127\<close>; the two searches start at the exponent 0.
\<close>

fun binade_up :: "nat \<Rightarrow> real \<Rightarrow> int \<Rightarrow> int" where
  "binade_up 0 x e = e"
| "binade_up (Suc n) x e = (if 2 powi (e + 1) \<le> x then binade_up n x (e + 1) else e)"

fun binade_down :: "nat \<Rightarrow> real \<Rightarrow> int \<Rightarrow> int" where
  "binade_down 0 x e = e"
| "binade_down (Suc n) x e = (if x < 2 powi e then binade_down n x (e - 1) else e)"

definition binade :: "real \<Rightarrow> int" where
  "binade x =
     (if 1 \<le> x then binade_up 127 x 0
      else if x < 2 powi (- 126) then - 126
      else binade_down 126 x 0)"

definition round_even :: "real \<Rightarrow> int" where
  "round_even x =
     (let f = \<lfloor>x\<rfloor>; d = x - of_int f
      in if d < 1 / 2 then f else if d > 1 / 2 then f + 1 else if even f then f else f + 1)"

definition float32 :: rounding where
  "float32 x =
     (let ulp = 2 powi (binade \<bar>x\<bar> - 23);
          r = of_int (round_even (x / ulp)) * ulp
      in if \<bar>r\<bar> < 2 ^ 128 then Some r else None)"

subsection \<open>One training step\<close>

text \<open>
  Modelled from the spec: the constant \<open>Sokoban::AllDirections\<close>, which \<open>Train\<close>
  iterates over and which no header under the sources declares.  The spec names the
  fixed scan order Up, Left, Right, Down over the four directions.
\<close>

definition AllDirections :: "DirectionInt list" where
  "AllDirections = [Up, Left, Right, Down]"

record (overloaded) ('s::len) TrainResult =
  Action :: DirectionInt
  LastState :: "'s word"
  OldRow :: RowType
  NewRow :: RowType

text \<open>
  \<open>Train_reward\<close> is the computation of \<open>reward\<close> and \<open>Train_max_Q\<close> the computation of
  \<open>max_Q\<close> in \<open>Train\<close>, from the game after the move, in the arithmetic \<open>rnd\<close> of
  \<open>RealType\<close>.  The difference of the two \<open>Finished\<close> counts is an \<open>int\<close> and the number
  of boxes a \<open>std::size_t\<close>; each is converted to \<open>RealType\<close> before it is multiplied.
\<close>

definition Train_reward ::
  "rounding \<Rightarrow> ('s::len) Game \<Rightarrow> bool \<Rightarrow> int \<Rightarrow> real \<Rightarrow> real \<Rightarrow> real \<Rightarrow> real \<Rightarrow> real \<Rightarrow> real option" where
  "Train_reward rnd game pushed last_finished retrace_penalty push_reward goal_reward failure_penalty success_reward =
     (let state = State game;
          reward = RealType_mul rnd (Some goal_reward) (rnd (of_int (Finished game - last_finished)));
          reward = (if state \<in> StateHistory game then RealType_sub rnd reward (Some retrace_penalty) else reward);
          reward = (if pushed then RealType_add rnd reward (Some push_reward) else reward);
          reward = (if Succeeded game then RealType_add rnd reward (Some success_reward) else reward);
          reward = (if Failed game then RealType_sub rnd reward (Some failure_penalty) else reward)
      in reward)"

definition Train_max_Q ::
  "rounding \<Rightarrow> ('s::len) QTable \<Rightarrow> 's Game \<Rightarrow> real \<Rightarrow> real \<Rightarrow> real \<Rightarrow> real option" where
  "Train_max_Q rnd Q game retrace_penalty failure_penalty goal_reward =
     (let state = State game;
          actions = Directions game;
          max_Q = RealType_neg
                    (RealType_add rnd
                       (RealType_add rnd (Some retrace_penalty) (Some failure_penalty))
                       (RealType_mul rnd (Some goal_reward) (rnd (of_nat (card (BoxPos0 game))))))
      in fold (\<lambda>d max_Q. if actions AND d \<noteq> 0 then RealType_max max_Q (Some (Get Q state d)) else max_Q)
           AllDirections max_Q)"

text \<open>
  \<open>Train\<close> returns \<open>None\<close> when the value it is to store is not a finite value of
  \<open>RealType\<close>; the model has no Q table for that case.
\<close>

definition Train ::
  "rounding \<Rightarrow> ('r \<Rightarrow> real \<times> 'r) \<Rightarrow> (int \<Rightarrow> int \<Rightarrow> 'r \<Rightarrow> int \<times> 'r) \<Rightarrow> 'r \<Rightarrow> ('s::len) Game \<Rightarrow> 's QTable
     \<Rightarrow> real \<Rightarrow> real \<Rightarrow> real \<Rightarrow> real \<Rightarrow> real \<Rightarrow> real \<Rightarrow> real \<Rightarrow> real
     \<Rightarrow> ('s TrainResult \<times> 'r \<times> 's Game \<times> 's QTable) option" where
  "Train rnd uniform_real uniform_int random_generator game Q epsilon alpha gamma
      retrace_penalty push_reward goal_reward failure_penalty success_reward =
     (let last_state = State game;
          old_row = GetRow Q last_state
      in if Succeeded game \<or> Failed game then
           Some (\<lparr>Action = NoDirection, LastState = last_state, OldRow = old_row, NewRow = old_row\<rparr>,
                 random_generator, Restart game, Q)
         else
           let last_finished = Finished game;
               (last_action, rng1) = FindAction uniform_real uniform_int random_generator epsilon game Q;
               (pushed, game1) = Move game last_action;
               reward = Train_reward rnd game1 pushed last_finished
                          retrace_penalty push_reward goal_reward failure_penalty success_reward;
               max_Q = Train_max_Q rnd Q game1 retrace_penalty failure_penalty goal_reward
           in case RealType_add rnd
                     (RealType_mul rnd (RealType_sub rnd (rnd 1) (Some alpha))
                        (Some (Get Q last_state last_action)))
                     (RealType_mul rnd (Some alpha)
                        (RealType_add rnd reward (RealType_mul rnd (Some gamma) max_Q))) of
                None \<Rightarrow> None
              | Some v \<Rightarrow>
                  let Q1 = Set Q last_state last_action v
                  in Some (\<lparr>Action = last_action, LastState = last_state, OldRow = old_row,
                            NewRow = GetRow Q1 last_state\<rparr>, rng1, game1, Q1))"

section \<open>Properties of the engine\<close>

declare CheckDirection.simps [simp del]
declare BoxStuck.simps [simp del]
declare WallStuck_left.simps [simp del]
declare WallStuck_right.simps [simp del]
declare WallStuck_up.simps [simp del]
declare WallStuck_down.simps [simp del]
declare CanPushAny.simps [simp del]
declare CanPushAny_loop.simps [simp del]
declare FloorBits_loop.simps [simp del]
declare FindAction_loop.simps [simp del]

subsection \<open>A small game\<close>

text \<open>
  The one-line maze \<open>*&$\<close>: the player at \<open>(0, 0)\<close>, a box at \<open>(0, 1)\<close>, a goal at
  \<open>(0, 2)\<close>.  \<open>game_row\<close> is the object its construction yields, with a 64-bit key
  as in the command-line program.
\<close>

definition game_row :: "64 Game" where
  "game_row =
     \<lparr>Succeeded = False, Failed = False, Directions = 4, Height = 1, Width = 3, FloorBits = 2,
      Finished = 0, State = 4, TimeElapsed = 0, PlayerPos0 = (0, 0), PlayerPos = (0, 0),
      BoxPos0 = {(0, 1)}, BoxPos = {(0, 1)}, GoalPos = {(0, 2)}, Maze = [[9, 5, 3]],
      FloorIndex = [[0, 1, 2]], StateHistory = {}\<rparr>"

lemma Game_game_row: "Game ''*&$'' = Inr game_row"
  unfolding game_row_def by code_simp

definition game_row_won :: "64 Game" where
  "game_row_won =
     \<lparr>Succeeded = True, Failed = False, Directions = 2, Height = 1, Width = 3, FloorBits = 2,
      Finished = 1, State = 9, TimeElapsed = 1, PlayerPos0 = (0, 0), PlayerPos = (0, 1),
      BoxPos0 = {(0, 1)}, BoxPos = {(0, 2)}, GoalPos = {(0, 2)}, Maze = [[1, 9, 7]],
      FloorIndex = [[0, 1, 2]], StateHistory = {4}\<rparr>"

lemma Move_game_row: "Move game_row Right = (True, game_row_won)"
  unfolding game_row_def game_row_won_def by code_simp

lemma reachable_game_row: "reachable game_row"
  by (rule reachable.construct [OF Game_game_row])

lemma reachable_game_row_won: "reachable game_row_won"
  by (rule reachable.move [OF reachable_game_row Move_game_row])

subsection \<open>Rejected moves\<close>

lemma and_exp_word: "(x::'a::len word) AND 2 ^ n = (if bit x n then 2 ^ n else 0)"
  by (rule bit_eqI) (auto simp: bit_and_iff bit_exp_iff)

lemma unit_and_cases:
  fixes x :: DirectionInt
  shows "x AND 1 = 0 \<or> x AND 1 = 1" "x AND 2 = 0 \<or> x AND 2 = 2"
        "x AND 4 = 0 \<or> x AND 4 = 4" "x AND 8 = 0 \<or> x AND 8 = 8"
  using and_exp_word [of x 0] and_exp_word [of x 1] and_exp_word [of x 2] and_exp_word [of x 3]
  by (simp_all split: if_splits)

lemma Movement_not_unit: "d \<notin> {Up, Left, Right, Down} \<Longrightarrow> Movement d = (0, 0)"
  by (simp add: Movement_def)

lemma DoMove_not_unit: "d \<notin> {Up, Left, Right, Down} \<Longrightarrow> DoMove g d = (False, g)"
  by (simp add: DoMove_def Movement_not_unit Let_def)

text \<open>
  C1.  Whenever the direction \<open>d\<close> is not contained in the legal-direction bitmask,
  \<open>Move d\<close> returns false and the game is the same object as before: no field
  changes.  "Not contained" is taken in both readings at once: \<open>d\<close> shares no bit with
  the mask (this covers the sentinel \<open>NoDirection = 0\<close>), or some bit of \<open>d\<close> is
  missing from the mask.
\<close>

theorem Move_illegal_unchanged:
  assumes "Directions g AND d = 0 \<or> Directions g AND d \<noteq> d"
  shows "Move g d = (False, g)"
proof (cases "Directions g AND d = 0")
  case True
  then show ?thesis by (simp add: Move_def DoMove_def)
next
  case False
  with assms have ne: "Directions g AND d \<noteq> d" by simp
  have "d \<notin> {Up, Left, Right, Down}"
    using False ne unit_and_cases [of "Directions g"]
    by (auto simp: Up_def Left_def Right_def Down_def)
  then show ?thesis by (simp add: Move_def DoMove_not_unit)
qed

theorem Move_illegal_unchanged_witness:
  "(Directions game_row AND Up = 0 \<or> Directions game_row AND Up \<noteq> Up)
   \<and> Move game_row Up = (False, game_row)
   \<and> (Directions game_row AND NoDirection = 0 \<or> Directions game_row AND NoDirection \<noteq> NoDirection)
   \<and> Move game_row NoDirection = (False, game_row)"
  using Move_illegal_unchanged [of game_row Up] Move_illegal_unchanged [of game_row NoDirection]
  by (simp add: game_row_def Up_def NoDirection_def)

text \<open>
  C10.  A direction argument other than the four unit values \<open>Up\<close>, \<open>Left\<close>, \<open>Right\<close>,
  \<open>Down\<close> has the movement vector \<open>(0, 0)\<close>, and \<open>Move\<close> returns false and leaves the
  game unchanged, whatever the legal-direction bitmask is.
\<close>

theorem Move_not_unit_unchanged:
  assumes "d \<notin> {Up, Left, Right, Down}"
  shows "Movement d = (0, 0) \<and> Move g d = (False, g)"
  using assms by (simp add: Move_def DoMove_not_unit Movement_not_unit)

theorem Move_not_unit_unchanged_witness:
  "(Left OR Right) \<notin> {Up, Left, Right, Down}
   \<and> Directions game_row AND (Left OR Right) \<noteq> 0
   \<and> Movement (Left OR Right) = (0, 0)
   \<and> Move game_row (Left OR Right) = (False, game_row)"
  using Move_not_unit_unchanged [of "Left OR Right" game_row]
  by (simp add: game_row_def Up_def Left_def Right_def Down_def)


subsection \<open>Terminal flags\<close>

lemma UpdateData_Succeeded:
  "Succeeded (UpdateData g) = (Finished (UpdateData g) = int (card (BoxPos0 (UpdateData g))))"
  by (simp add: UpdateData_def Let_def split: prod.splits)

lemma UpdateData_Failed:
  "Failed (UpdateData g) \<Longrightarrow> \<not> Succeeded (UpdateData g)"
  by (simp add: UpdateData_def Let_def CheckFailed_def split: prod.splits if_splits)

lemma UpdateData_not_terminal:
  "\<not> Succeeded (UpdateData g) \<Longrightarrow> \<not> Failed (UpdateData g) \<Longrightarrow> Directions (UpdateData g) \<noteq> 0"
  by (simp add: UpdateData_def Let_def CheckFailed_def split: prod.splits if_splits)

lemma UpdateData_directions_le: "UpdateData_directions g \<le> 15"
  by (simp add: UpdateData_directions_def Up_def Left_def Right_def Down_def NoDirection_def)

lemma UpdateData_Directions_le: "Directions (UpdateData g) \<le> 15"
  by (simp add: UpdateData_def Let_def UpdateData_directions_le split: prod.splits)

lemma reachable_UpdateData: "reachable g \<Longrightarrow> \<exists>g0. g = UpdateData g0"
proof (induction rule: reachable.induct)
  case (construct maze g)
  then show ?case
    by (auto simp: Game_def DoRestart_def Let_def split: sum.splits prod.splits if_splits)
next
  case (move g d pushed g')
  then show ?case
    by (auto simp: Move_def DoMove_def Let_def split: if_splits)
next
  case (restart g)
  then show ?case by (auto simp: Restart_def DoRestart_def)
qed

text \<open>
  C4.  In every reachable game, \<open>Succeeded\<close> holds exactly when \<open>Finished\<close> equals the
  initial number of boxes, \<open>Succeeded\<close> and \<open>Failed\<close> are never both true, and the
  failure check returns false whenever \<open>Finished\<close> equals the initial number of boxes.
\<close>

theorem terminal_flags:
  assumes "reachable g"
  shows "(Succeeded g \<longleftrightarrow> Finished g = int (card (BoxPos0 g))) \<and> \<not> (Succeeded g \<and> Failed g)
         \<and> (Finished g = int (card (BoxPos0 g)) \<longrightarrow> \<not> CheckFailed g)"
proof -
  from reachable_UpdateData [OF assms] obtain g0 where g: "g = UpdateData g0" ..
  show ?thesis
    unfolding g using UpdateData_Succeeded [of g0] UpdateData_Failed [of g0]
    by (auto simp: CheckFailed_def)
qed

theorem terminal_flags_witness:
  "reachable game_row_won \<and> Succeeded game_row_won
   \<and> Finished game_row_won = int (card (BoxPos0 game_row_won))
   \<and> \<not> Failed game_row_won \<and> \<not> CheckFailed game_row_won"
  using terminal_flags [OF reachable_game_row_won] reachable_game_row_won
  by (simp add: game_row_won_def)


section \<open>Properties of the learner\<close>

subsection \<open>Action selection\<close>

text \<open>
  The spec's words for the outcome of \<open>FindAction\<close>: \<open>legal_directions\<close> lists the
  directions of a mask in the scan order Up, Left, Right, Down, and
  \<open>first_max_direction\<close> is the first of them whose Q-value is the maximum over them.
\<close>

definition legal_directions :: "DirectionInt \<Rightarrow> DirectionInt list" where
  "legal_directions actions = filter (\<lambda>d. actions AND d \<noteq> 0) [Up, Left, Right, Down]"

definition first_max_direction :: "('s::len) QTable \<Rightarrow> 's word \<Rightarrow> DirectionInt \<Rightarrow> DirectionInt" where
  "first_max_direction Q state actions =
     hd (filter (\<lambda>d. Get Q state d = Max (Get Q state ` set (legal_directions actions)))
           (legal_directions actions))"

definition FindAction_start :: "('s::len) QTable \<Rightarrow> 's word \<Rightarrow> DirectionInt
   \<Rightarrow> int \<times> bool \<times> DirectionInt \<times> DirectionInt \<times> DirectionInt \<times> real \<times> real \<times> real \<times> DirectionInt" where
  "FindAction_start Q state actions =
     FindAction_loop Q state
       (1, True, actions AND (actions - 1), actions AND - actions,
        (actions AND (actions - 1)) AND - (actions AND (actions - 1)),
        Get Q state (actions AND - actions),
        Get Q state ((actions AND (actions - 1)) AND - (actions AND (actions - 1))),
        Get Q state (actions AND - actions), actions AND - actions)"

definition loop_summary :: "('s::len) QTable \<Rightarrow> 's word \<Rightarrow> DirectionInt \<Rightarrow> bool" where
  "loop_summary Q state actions =
     (case FindAction_start Q state actions of
        (action_count, all_same, actions_remain, last_action, current_action, last_Q, current_Q, max_Q, choice) \<Rightarrow>
          action_count = int (length (legal_directions actions)) \<and>
          all_same = (\<forall>d \<in> set (legal_directions actions). \<forall>d' \<in> set (legal_directions actions).
                         Get Q state d = Get Q state d') \<and>
          choice = first_max_direction Q state actions)"

lemma word8_le_15_cases:
  fixes d :: "8 word" assumes "d \<le> 15"
  shows "d \<in> {0,1,2,3,4,5,6,7,8,9,10,11,12,13,14,15}"
proof -
  have "unat d \<le> 15" using assms by (simp add: word_le_nat_alt)
  then have "unat d \<in> {0,1,2,3,4,5,6,7,8,9,10,11,12,13,14,15}" by simp arith
  then show ?thesis
    by (auto simp: word_unat_eq_iff)
qed

lemmas ls_defs = loop_summary_def FindAction_start_def FindAction_loop.simps legal_directions_def
  first_max_direction_def Up_def Left_def Right_def Down_def

lemma ls1: "loop_summary Q s 1" by (simp add: ls_defs)
lemma ls2: "loop_summary Q s 2" by (simp add: ls_defs)
lemma ls4: "loop_summary Q s 4" by (simp add: ls_defs)
lemma ls8: "loop_summary Q s 8" by (simp add: ls_defs)
lemma ls3: "loop_summary Q s 3" by (simp add: ls_defs) (auto simp: max_def)
lemma ls5: "loop_summary Q s 5" by (simp add: ls_defs) (auto simp: max_def)
lemma ls6: "loop_summary Q s 6" by (simp add: ls_defs) (auto simp: max_def)
lemma ls9: "loop_summary Q s 9" by (simp add: ls_defs) (auto simp: max_def)
lemma ls10: "loop_summary Q s 10" by (simp add: ls_defs) (auto simp: max_def)
lemma ls12: "loop_summary Q s 12" by (simp add: ls_defs) (auto simp: max_def)
lemma ls7: "loop_summary Q s 7" by (simp add: ls_defs) (auto simp: max_def)
lemma ls11: "loop_summary Q s 11" by (simp add: ls_defs) (auto simp: max_def)
lemma ls13: "loop_summary Q s 13" by (simp add: ls_defs) (auto simp: max_def)
lemma ls14: "loop_summary Q s 14" by (simp add: ls_defs) (auto simp: max_def)
lemma ls15: "loop_summary Q s 15" by (simp add: ls_defs) (auto simp: max_def)

lemma loop_summary_all:
  assumes "actions \<le> 15" "actions \<noteq> 0"
  shows "loop_summary Q s actions"
  using word8_le_15_cases [OF assms(1)] assms(2)
    ls1 ls2 ls3 ls4 ls5 ls6 ls7 ls8 ls9 ls10 ls11 ls12 ls13 ls14 ls15
  by (elim insertE; simp)

lemma FindAction_unfold:
  assumes "Directions g \<noteq> 0"
  shows "FindAction ur ui rng eps g Q =
     (case FindAction_start Q (State g) (Directions g) of
        (action_count, all_same, actions_remain, last_action, current_action, last_Q, current_Q, max_Q, choice) \<Rightarrow>
          if action_count = 1 then (Directions g, rng)
          else if all_same \<or> fst (ur rng) < eps then
            (FindAction_skip (nat (fst (ui 0 (action_count - 1) (snd (ur rng))))) (Directions g)
               AND - FindAction_skip (nat (fst (ui 0 (action_count - 1) (snd (ur rng))))) (Directions g),
             snd (ui 0 (action_count - 1) (snd (ur rng))))
          else (choice, snd (ur rng)))"
  using assms
  by (simp add: FindAction_def FindAction_start_def Let_def case_prod_beta)

lemma legal_single:
  assumes "actions \<le> 15" "length (legal_directions actions) = 1"
  shows "legal_directions actions = [actions]"
  using word8_le_15_cases [OF assms(1)] assms(2)
  by (elim insertE; simp add: legal_directions_def Up_def Left_def Right_def Down_def)

lemma legal_nonempty:
  assumes "actions \<le> 15" "actions \<noteq> 0"
  shows "legal_directions actions \<noteq> []"
  using word8_le_15_cases [OF assms(1)] assms(2)
  by (elim insertE; simp add: legal_directions_def Up_def Left_def Right_def Down_def)

lemma skip_nth:
  assumes "actions \<le> 15" "k < length (legal_directions actions)"
  shows "FindAction_skip k actions AND - FindAction_skip k actions = legal_directions actions ! k"
proof -
  have "length (legal_directions actions) \<le> 4" by (simp add: legal_directions_def)
  with assms(2) have "k = 0 \<or> k = Suc 0 \<or> k = Suc (Suc 0) \<or> k = Suc (Suc (Suc 0))" by arith
  then show ?thesis
    using word8_le_15_cases [OF assms(1)] assms(2)
    by (elim insertE disjE; simp add: legal_directions_def Up_def Left_def Right_def Down_def)
qed

lemma first_max_legal:
  assumes "legal_directions actions \<noteq> []"
  shows "first_max_direction Q s actions \<in> set (legal_directions actions)"
proof -
  let ?L = "legal_directions actions"
  have "Max (Get Q s ` set ?L) \<in> Get Q s ` set ?L"
    using assms by (intro Max_in) auto
  then obtain d where "d \<in> set ?L" "Get Q s d = Max (Get Q s ` set ?L)" by auto
  then have ne: "filter (\<lambda>d. Get Q s d = Max (Get Q s ` set ?L)) ?L \<noteq> []"
    by (auto simp: filter_empty_conv)
  from hd_in_set [OF ne] show ?thesis
    by (simp add: first_max_direction_def)
qed

lemma FindAction_legal:
  assumes le: "Directions g \<le> 15" and ne: "Directions g \<noteq> 0"
    and ui: "\<forall>lo hi r. lo \<le> hi \<longrightarrow> lo \<le> fst (ui lo hi r) \<and> fst (ui lo hi r) \<le> hi"
  shows "fst (FindAction ur ui rng eps g Q) \<in> set (legal_directions (Directions g))"
proof -
  let ?L = "legal_directions (Directions g)"
  obtain action_count all_same actions_remain last_action current_action last_Q current_Q max_Q choice
    where st: "FindAction_start Q (State g) (Directions g) =
      (action_count, all_same, actions_remain, last_action, current_action, last_Q, current_Q, max_Q, choice)"
    by (metis prod_cases3)
  from loop_summary_all [OF le ne, of Q "State g"] st
  have cnt: "action_count = int (length ?L)" and ch: "choice = first_max_direction Q (State g) (Directions g)"
    by (simp_all add: loop_summary_def)
  have Lne: "?L \<noteq> []" by (rule legal_nonempty [OF le ne])
  show ?thesis
  proof (cases "action_count = 1")
    case True
    with cnt legal_single [OF le] have "?L = [Directions g]" by simp
    then show ?thesis using True by (simp add: FindAction_unfold [OF ne] st)
  next
    case False
    show ?thesis
    proof (cases "all_same \<or> fst (ur rng) < eps")
      case True
      let ?k = "fst (ui 0 (action_count - 1) (snd (ur rng)))"
      have "0 \<le> action_count - 1" using cnt Lne by (cases ?L) auto
      with ui have "0 \<le> ?k \<and> ?k \<le> action_count - 1" by blast
      then have "0 \<le> ?k" "?k \<le> action_count - 1" by simp_all
      then have "nat ?k < length ?L" using cnt by auto
      from skip_nth [OF le this] nth_mem [OF this]
      show ?thesis using True False by (simp add: FindAction_unfold [OF ne] st)
    next
      case no: False
      then show ?thesis using False first_max_legal [OF Lne, of Q "State g"] ch
        by (simp add: FindAction_unfold [OF ne] st)
    qed
  qed
qed


lemma FindAction_start_cases:
  assumes "Directions g \<le> 15" "Directions g \<noteq> 0"
  obtains ar la ca lq cq mq where
    "FindAction_start Q (State g) (Directions g) =
       (int (length (legal_directions (Directions g))),
        (\<forall>d \<in> set (legal_directions (Directions g)). \<forall>d' \<in> set (legal_directions (Directions g)).
            Get Q (State g) d = Get Q (State g) d'),
        ar, la, ca, lq, cq, mq, first_max_direction Q (State g) (Directions g))"
proof -
  obtain action_count all_same actions_remain last_action current_action last_Q current_Q max_Q choice
    where st: "FindAction_start Q (State g) (Directions g) =
      (action_count, all_same, actions_remain, last_action, current_action, last_Q, current_Q, max_Q, choice)"
    by (metis prod_cases3)
  from loop_summary_all [OF assms, of Q "State g"] st
  have "FindAction_start Q (State g) (Directions g) =
       (int (length (legal_directions (Directions g))),
        (\<forall>d \<in> set (legal_directions (Directions g)). \<forall>d' \<in> set (legal_directions (Directions g)).
            Get Q (State g) d = Get Q (State g) d'),
        actions_remain, last_action, current_action, last_Q, current_Q, max_Q,
        first_max_direction Q (State g) (Directions g))"
    by (simp add: loop_summary_def)
  then show ?thesis by (rule that)
qed

text \<open>
  C7.  \<open>FindAction\<close> returns the sentinel \<open>NoDirection\<close> when no direction is legal.
  When exactly one direction \<open>d\<close> is legal it returns \<open>d\<close> and the generator is
  untouched.  When several directions are legal, their Q-values are not all equal and
  the one real number drawn is not below \<open>epsilon\<close>, it returns the first direction, in
  the order Up, Left, Right, Down, whose Q-value is the maximum over the legal
  directions, and the generator has made that one draw.  The legal-direction mask has
  only the four direction bits (\<open>Directions g \<le> 15\<close>), as \<open>UpdateData\<close> computes it.
\<close>

theorem FindAction_selects:
  "(Directions g = NoDirection \<longrightarrow> FindAction ur ui rng eps g Q = (NoDirection, rng))
   \<and> (Directions g \<le> 15 \<and> legal_directions (Directions g) = [d]
        \<longrightarrow> FindAction ur ui rng eps g Q = (d, rng))
   \<and> (Directions g \<le> 15 \<and> length (legal_directions (Directions g)) > 1
        \<and> (\<exists>d1 \<in> set (legal_directions (Directions g)). \<exists>d2 \<in> set (legal_directions (Directions g)).
              Get Q (State g) d1 \<noteq> Get Q (State g) d2)
        \<and> \<not> fst (ur rng) < eps
        \<longrightarrow> FindAction ur ui rng eps g Q = (first_max_direction Q (State g) (Directions g), snd (ur rng)))"
proof (intro conjI impI)
  assume "Directions g = NoDirection"
  then show "FindAction ur ui rng eps g Q = (NoDirection, rng)"
    by (simp add: FindAction_def NoDirection_def)
next
  assume a: "Directions g \<le> 15 \<and> legal_directions (Directions g) = [d]"
  then have le: "Directions g \<le> 15" and L: "legal_directions (Directions g) = [d]" by simp_all
  from L have ne: "Directions g \<noteq> 0" by (auto simp: legal_directions_def)
  from L legal_single [OF le] have d: "Directions g = d" by simp
  from FindAction_start_cases [OF le ne, of Q] obtain ar la ca lq cq mq where
    st: "FindAction_start Q (State g) (Directions g) =
       (int (length (legal_directions (Directions g))),
        (\<forall>d \<in> set (legal_directions (Directions g)). \<forall>d' \<in> set (legal_directions (Directions g)).
            Get Q (State g) d = Get Q (State g) d'),
        ar, la, ca, lq, cq, mq, first_max_direction Q (State g) (Directions g))" .
  have "int (length (legal_directions (Directions g))) = 1" by (simp add: L)
  then show "FindAction ur ui rng eps g Q = (d, rng)"
    unfolding FindAction_unfold [OF ne] st by (simp add: d)
next
  assume a: "Directions g \<le> 15 \<and> length (legal_directions (Directions g)) > 1
        \<and> (\<exists>d1 \<in> set (legal_directions (Directions g)). \<exists>d2 \<in> set (legal_directions (Directions g)).
              Get Q (State g) d1 \<noteq> Get Q (State g) d2)
        \<and> \<not> fst (ur rng) < eps"
  then have le: "Directions g \<le> 15" and len: "length (legal_directions (Directions g)) > 1"
    and diff: "\<not> (\<forall>d \<in> set (legal_directions (Directions g)). \<forall>d' \<in> set (legal_directions (Directions g)).
            Get Q (State g) d = Get Q (State g) d')"
    and eps: "\<not> fst (ur rng) < eps" by blast+
  from len have ne: "Directions g \<noteq> 0" by (auto simp: legal_directions_def)
  from FindAction_start_cases [OF le ne, of Q] obtain ar la ca lq cq mq where
    st: "FindAction_start Q (State g) (Directions g) =
       (int (length (legal_directions (Directions g))),
        (\<forall>d \<in> set (legal_directions (Directions g)). \<forall>d' \<in> set (legal_directions (Directions g)).
            Get Q (State g) d = Get Q (State g) d'),
        ar, la, ca, lq, cq, mq, first_max_direction Q (State g) (Directions g))" .
  define n where "n = int (length (legal_directions (Directions g)))"
  define A where "A \<longleftrightarrow> (\<forall>d \<in> set (legal_directions (Directions g)). \<forall>d' \<in> set (legal_directions (Directions g)).
            Get Q (State g) d = Get Q (State g) d')"
  define ch where "ch = first_max_direction Q (State g) (Directions g)"
  have n1: "n \<noteq> 1" using len by (simp add: n_def)
  have nA: "\<not> A" using diff by (simp add: A_def)
  have st': "FindAction_start Q (State g) (Directions g) = (n, A, ar, la, ca, lq, cq, mq, ch)"
    unfolding n_def A_def ch_def by (rule st)
  show "FindAction ur ui rng eps g Q = (first_max_direction Q (State g) (Directions g), snd (ur rng))"
    unfolding FindAction_unfold [OF ne] st' ch_def [symmetric] using n1 nA eps by simp
qed

definition game_blocked :: "64 Game" where
  "game_blocked =
     \<lparr>Succeeded = False, Failed = True, Directions = 0, Height = 1, Width = 4, FloorBits = 2,
      Finished = 0, State = 4, TimeElapsed = 0, PlayerPos0 = (0, 0), PlayerPos = (0, 0),
      BoxPos0 = {(0, 2)}, BoxPos = {(0, 2)}, GoalPos = {(0, 3)}, Maze = [[9, 0, 5, 3]],
      FloorIndex = [[0, - 1, 1, 2]], StateHistory = {}\<rparr>"

lemma Game_game_blocked: "Game ''*#&$'' = Inr game_blocked"
  unfolding game_blocked_def by code_simp

definition game_mid :: "64 Game" where
  "game_mid =
     \<lparr>Succeeded = False, Failed = False, Directions = 6, Height = 1, Width = 4, FloorBits = 2,
      Finished = 0, State = 9, TimeElapsed = 0, PlayerPos0 = (0, 1), PlayerPos = (0, 1),
      BoxPos0 = {(0, 2)}, BoxPos = {(0, 2)}, GoalPos = {(0, 3)}, Maze = [[1, 9, 5, 3]],
      FloorIndex = [[0, 1, 2, 3]], StateHistory = {}\<rparr>"

lemma Game_game_mid: "Game ''.*&$'' = Inr game_mid"
  unfolding game_mid_def by code_simp

text \<open>A generator for the examples: its state counts the draws; every real draw is \<open>1/2\<close>.\<close>

definition draw_half :: "nat \<Rightarrow> real \<times> nat" where
  "draw_half n = (1 / 2, n + 1)"

definition draw_low :: "int \<Rightarrow> int \<Rightarrow> nat \<Rightarrow> int \<times> nat" where
  "draw_low lo hi n = (lo, n + 1)"

theorem FindAction_selects_witness:
  "Directions game_blocked = NoDirection
   \<and> FindAction draw_half draw_low 0 (1 / 20) game_blocked Map.empty = (NoDirection, 0)
   \<and> Directions game_row \<le> 15 \<and> legal_directions (Directions game_row) = [Right]
   \<and> FindAction draw_half draw_low 0 (1 / 20) game_row Map.empty = (Right, 0)
   \<and> Directions game_mid \<le> 15 \<and> legal_directions (Directions game_mid) = [Left, Right]
   \<and> Get [9 \<mapsto> (0, 1, 2, 0)] (State game_mid) Left \<noteq> Get [9 \<mapsto> (0, 1, 2, 0)] (State game_mid) Right
   \<and> \<not> fst (draw_half 0) < 1 / 20
   \<and> first_max_direction [9 \<mapsto> (0, 1, 2, 0)] (State game_mid) (Directions game_mid) = Right
   \<and> FindAction draw_half draw_low 0 (1 / 20) game_mid [9 \<mapsto> (0, 1, 2, 0)] = (Right, 1)"
  using FindAction_selects [of game_blocked draw_half draw_low 0 "1 / 20" Map.empty Up]
    FindAction_selects [of game_row draw_half draw_low 0 "1 / 20" Map.empty Right]
    FindAction_selects [of game_mid draw_half draw_low 0 "1 / 20" "[9 \<mapsto> (0, 1, 2, 0)]" Up]
  by (simp add: game_blocked_def game_row_def game_mid_def legal_directions_def first_max_direction_def
      Get_def draw_half_def NoDirection_def Up_def Left_def Right_def Down_def) blast

subsection \<open>The training step\<close>

lemma Get_Set_same:
  "a \<in> {Up, Left, Right, Down} \<Longrightarrow> Get (Set Q s a v) s a = v"
  by (auto simp: Get_def Set_def GetRow_def Up_def Left_def Right_def Down_def split: option.splits prod.splits)


lemma legal_directions_units: "set (legal_directions actions) \<subseteq> {Up, Left, Right, Down}"
  by (auto simp: legal_directions_def)

lemma legal_directions_and:
  assumes "a \<in> set (legal_directions actions)"
  shows "actions AND a \<noteq> 0"
proof -
  have "a \<in> {x \<in> set [Up, Left, Right, Down]. actions AND x \<noteq> 0}"
    using assms unfolding legal_directions_def set_filter .
  then show ?thesis by blast
qed

lemma RealType_max_Some: "RealType_max (Some a) (Some b) = Some (max a b)"
  by (simp add: RealType_max_def max_def)

lemma fold_RealType_max:
  "fold (\<lambda>d m. if P d then RealType_max m (Some (f d)) else m) ds (Some x) =
   Some (fold (\<lambda>d m. if P d then max m (f d) else m) ds x)"
  by (induction ds arbitrary: x) (simp_all add: RealType_max_Some)

lemma Train_max_Q_eq:
  assumes "RealType_neg (RealType_add rnd (RealType_add rnd (Some rp) (Some fp))
             (RealType_mul rnd (Some gr) (rnd (of_nat (card (BoxPos0 g)))))) = Some x"
  shows "Train_max_Q rnd Q g rp fp gr =
     Some (if legal_directions (Directions g) = [] then x
           else max x (Max (Get Q (State g) ` set (legal_directions (Directions g)))))"
proof -
  have "Train_max_Q rnd Q g rp fp gr =
      Some (fold (\<lambda>d m. if Directions g AND d \<noteq> 0 then max m (Get Q (State g) d) else m) AllDirections x)"
    unfolding Train_max_Q_def Let_def assms by (rule fold_RealType_max)
  also have "fold (\<lambda>d m. if Directions g AND d \<noteq> 0 then max m (Get Q (State g) d) else m) AllDirections x =
      (if legal_directions (Directions g) = [] then x
       else max x (Max (Get Q (State g) ` set (legal_directions (Directions g)))))"
    by (simp add: AllDirections_def legal_directions_def max.assoc)
  finally show ?thesis .
qed

lemma Train_step:
  assumes "\<not> Succeeded g" "\<not> Failed g"
    and "FindAction ur ui rng eps g Q = (a, rng1)"
    and "Move g a = (pushed, g')"
    and "RealType_add rnd
           (RealType_mul rnd (RealType_sub rnd (rnd 1) (Some alpha)) (Some (Get Q (State g) a)))
           (RealType_mul rnd (Some alpha)
              (RealType_add rnd (Train_reward rnd g' pushed (Finished g) rp pr gr fp sr)
                 (RealType_mul rnd (Some gamma) (Train_max_Q rnd Q g' rp fp gr)))) = Some v"
  shows "Train rnd ur ui rng g Q eps alpha gamma rp pr gr fp sr =
     Some (\<lparr>Action = a, LastState = State g, OldRow = GetRow Q (State g),
            NewRow = GetRow (Set Q (State g) a v) (State g)\<rparr>,
           rng1, g', Set Q (State g) a v)"
  using assms by (simp add: Train_def Let_def)

lemma reachable_nonterminal_Directions:
  assumes "reachable g" "\<not> Succeeded g" "\<not> Failed g"
  shows "Directions g \<le> 15 \<and> Directions g \<noteq> 0"
proof -
  from reachable_UpdateData [OF assms(1)] obtain g0 where g: "g = UpdateData g0" ..
  show ?thesis using assms(2,3) UpdateData_Directions_le [of g0] UpdateData_not_terminal [of g0]
    unfolding g by simp
qed


lemma FindAction_game_row: "FindAction draw_half draw_low 0 eps game_row Q = (Right, 0)"
  by (simp add: FindAction_def game_row_def FindAction_loop.simps Right_def)

lemma draw_low_range: "\<forall>lo hi r. lo \<le> hi \<longrightarrow> lo \<le> fst (draw_low lo hi r) \<and> fst (draw_low lo hi r) \<le> hi"
  by (simp add: draw_low_def)


text \<open>
  Some values of \<open>float32\<close>: one tenth is rounded to \<open>0x3DCCCCCD\<close>; a tie goes to the
  even significand; half the least subnormal value is rounded to zero; the results
  from \<open>2 ^ 128 - 2 ^ 103\<close> on overflow; a small term added to a large one is lost.
\<close>

lemma float32_examples:
  "float32 (1 / 10) = Some (13421773 / 134217728)"
  "float32 (1 + 1 / 2 ^ 24) = Some 1"
  "float32 (1 + 3 / 2 ^ 24) = Some (1 + 1 / 2 ^ 22)"
  "float32 (1 / 2 ^ 150) = Some 0"
  "float32 (2 ^ 128 - 2 ^ 103) = None"
  "float32 (1 / 2 ^ 30 + 1000) = Some 1000"
  "float32 (2101 / 4 + 1 / 2 ^ 21) = Some (2101 / 4)"
  by code_simp+

lemma float32_values:
  "float32 0 = Some 0"
  "float32 1 = Some 1"
  "float32 50 = Some 50"
  "float32 (101 / 2) = Some (101 / 2)"
  "float32 (2101 / 2) = Some (2101 / 2)"
  "float32 (2101 / 4) = Some (2101 / 4)"
  "float32 1001 = Some 1001"
  "float32 1051 = Some 1051"
  "float32 (1 / 2) = Some (1 / 2)"
  "float32 (1 / 2097152) = Some (1 / 2097152)"
  "float32 (1101529089 / 2097152) = Some (2101 / 4)"
  by code_simp+


section \<open>Invariants of reachable games\<close>

subsection \<open>The maze grid\<close>

definition dims :: "'a list list \<Rightarrow> int \<Rightarrow> int \<Rightarrow> bool" where
  "dims m h w \<longleftrightarrow> length m = nat h \<and> (\<forall>r \<in> set m. length r = nat w)"

definition in_grid :: "('s::len) Game \<Rightarrow> Pos \<Rightarrow> bool" where
  "in_grid g p \<longleftrightarrow> 0 \<le> fst p \<and> fst p < Height g \<and> 0 \<le> snd p \<and> snd p < Width g"

lemma CheckFloor_in_grid: "CheckFloor g l c \<Longrightarrow> in_grid g (l, c)"
  by (auto simp: CheckFloor_def in_grid_def split: if_splits)

lemma dims_or2: "dims m h w \<Longrightarrow> dims (or2 m p v) h w"
proof (cases "nat (fst p) < length m")
  case True
  assume "dims m h w"
  with True show ?thesis
    by (auto simp: dims_def or2_def dest!: set_update_subset_insert [THEN subsetD])
next
  case False
  assume "dims m h w"
  with False show ?thesis by (simp add: or2_def list_update_beyond)
qed

lemma at2_or2:
  assumes "dims m h w" "0 \<le> fst p" "fst p < h" "0 \<le> snd p" "snd p < w"
    and "0 \<le> i" "0 \<le> j"
  shows "at2 (or2 m p v) i j = (if (i, j) = p then at2 m i j OR v else at2 m i j)"
proof -
  have l: "nat (fst p) < length m" using assms by (simp add: dims_def)
  then have "m ! nat (fst p) \<in> set m" by simp
  with assms have r: "nat (snd p) < length (m ! nat (fst p))" by (simp add: dims_def)
  show ?thesis
  proof (cases "i = fst p")
    case True
    show ?thesis
    proof (cases "j = snd p")
      case True
      with \<open>i = fst p\<close> l r show ?thesis
        by (simp add: at2_def or2_def prod_eq_iff)
    next
      case False
      with assms have "nat j \<noteq> nat (snd p)" by simp
      with \<open>i = fst p\<close> l False show ?thesis
        by (auto simp: at2_def or2_def prod_eq_iff)
    qed
  next
    case False
    with assms have "nat i \<noteq> nat (fst p)" by simp
    with False show ?thesis
      by (auto simp: at2_def or2_def prod_eq_iff)
  qed
qed

lemma dims_UpdateData_floor: "dims (UpdateData_floor g) (Height g) (Width g)"
  by (auto simp: dims_def UpdateData_floor_def)

lemma at2_UpdateData_floor:
  assumes "in_grid g (i, j)"
  shows "at2 (UpdateData_floor g) i j = (if at2 (FloorIndex g) i j \<ge> 0 then IsFloor else IsWall)"
  using assms
  by (simp add: at2_def UpdateData_floor_def in_grid_def nth_upto)


definition grid_set :: "('s::len) Game \<Rightarrow> Pos set \<Rightarrow> bool" where
  "grid_set g A \<longleftrightarrow> (\<forall>p \<in> A. in_grid g p)"

lemma at2_or2_same:
  assumes "dims m (Height g) (Width g)" "in_grid g p"
  shows "at2 (or2 m p v) (fst p) (snd p) = at2 m (fst p) (snd p) OR v"
  using at2_or2 [OF assms(1), of p "fst p" "snd p" v] assms(2) by (simp add: in_grid_def)

lemma at2_or2_other:
  assumes "dims m (Height g) (Width g)" "in_grid g p" "in_grid g q" "q \<noteq> p"
  shows "at2 (or2 m p v) (fst q) (snd q) = at2 m (fst q) (snd q)"
  using at2_or2 [OF assms(1), of p "fst q" "snd q" v] assms(2,3,4) by (simp add: in_grid_def)

lemma at2_or2_pos:
  assumes "dims m (Height g) (Width g)" "in_grid g p" "in_grid g q"
  shows "at2 (or2 m p v) (fst q) (snd q) =
         (if q = p then at2 m (fst q) (snd q) OR v else at2 m (fst q) (snd q))"
  using at2_or2_same [OF assms(1,2)] at2_or2_other [OF assms] by auto

lemma dims_UpdateData_goals:
  "dims m h w \<Longrightarrow> dims (UpdateData_goals ps m) h w"
  by (induction ps arbitrary: m) (simp_all add: dims_or2)

lemma at2_UpdateData_goals:
  assumes "dims m (Height g) (Width g)" "grid_set g (set ps)" "in_grid g q"
  shows "at2 (UpdateData_goals ps m) (fst q) (snd q) =
         (if q \<in> set ps then at2 m (fst q) (snd q) OR IsGoal else at2 m (fst q) (snd q))"
  using assms(1,2)
proof (induction ps arbitrary: m)
  case Nil
  then show ?case by simp
next
  case (Cons p ps)
  from Cons.prems have p: "in_grid g p" and ps: "grid_set g (set ps)"
    by (simp_all add: grid_set_def)
  have d: "dims (or2 m p IsGoal) (Height g) (Width g)" by (rule dims_or2 [OF Cons.prems(1)])
  show ?case
    unfolding UpdateData_goals.simps Cons.IH [OF d ps] at2_or2_pos [OF Cons.prems(1) p assms(3)]
    by (auto simp: or.assoc)
qed

text \<open>What the loop over the boxes leaves: the maze, the count, the key and the offset.\<close>

lemma UpdateData_boxes_dims:
  assumes "dims m h w"
  shows "dims (fst (UpdateData_boxes g bs (m, f, st, off))) h w"
  using assms
  by (induction bs arbitrary: m f st off) (simp_all add: Let_def dims_or2)

lemma UpdateData_boxes_maze:
  assumes "dims m (Height g) (Width g)" "grid_set g (set bs)" "in_grid g q"
  shows "at2 (fst (UpdateData_boxes g bs (m, f, st, off))) (fst q) (snd q) =
         (if q \<in> set bs then at2 m (fst q) (snd q) OR IsBox else at2 m (fst q) (snd q))"
  using assms(1,2)
proof (induction bs arbitrary: m f st off)
  case Nil
  then show ?case by simp
next
  case (Cons b bs)
  from Cons.prems have b: "in_grid g b" and bs: "grid_set g (set bs)"
    by (simp_all add: grid_set_def)
  have d: "dims (or2 m b IsBox) (Height g) (Width g)" by (rule dims_or2 [OF Cons.prems(1)])
  have step: "UpdateData_boxes g (b # bs) (m, f, st, off) =
      UpdateData_boxes g bs (or2 m b IsBox,
        (if at2 (or2 m b IsBox) (fst b) (snd b) = (IsFloor OR IsGoal OR IsBox) then f + 1 else f),
        st OR push_bit (FloorBits g * (off + 1)) (StateType_of (at2 (FloorIndex g) (fst b) (snd b))),
        off + 1)"
    by (simp add: Let_def)
  show ?case
    unfolding step Cons.IH [OF d bs] at2_or2_pos [OF Cons.prems(1) b assms(3)]
    by (auto simp: or.assoc)
qed

lemma UpdateData_boxes_finished:
  assumes "dims m (Height g) (Width g)" "grid_set g (set bs)" "distinct bs"
  shows "fst (snd (UpdateData_boxes g bs (m, f, st, off))) =
         f + int (length (filter (\<lambda>b. at2 m (fst b) (snd b) OR IsBox = (IsFloor OR IsGoal OR IsBox)) bs))"
  using assms
proof (induction bs arbitrary: m f st off)
  case Nil
  then show ?case by simp
next
  case (Cons b bs)
  from Cons.prems have b: "in_grid g b" and bs: "grid_set g (set bs)" and nb: "b \<notin> set bs"
    and dist: "distinct bs"
    by (simp_all add: grid_set_def)
  have d: "dims (or2 m b IsBox) (Height g) (Width g)" by (rule dims_or2 [OF Cons.prems(1)])
  have same: "filter (\<lambda>c. at2 (or2 m b IsBox) (fst c) (snd c) OR IsBox = (IsFloor OR IsGoal OR IsBox)) bs
            = filter (\<lambda>c. at2 m (fst c) (snd c) OR IsBox = (IsFloor OR IsGoal OR IsBox)) bs"
  proof (rule filter_cong [OF refl])
    fix c assume c: "c \<in> set bs"
    with bs have "in_grid g c" by (simp add: grid_set_def)
    moreover from c nb have "c \<noteq> b" by auto
    ultimately show "(at2 (or2 m b IsBox) (fst c) (snd c) OR IsBox = (IsFloor OR IsGoal OR IsBox))
        = (at2 m (fst c) (snd c) OR IsBox = (IsFloor OR IsGoal OR IsBox))"
      by (simp add: at2_or2_other [OF Cons.prems(1) b])
  qed
  have step: "UpdateData_boxes g (b # bs) (m, f, st, off) =
      UpdateData_boxes g bs (or2 m b IsBox,
        (if at2 (or2 m b IsBox) (fst b) (snd b) = (IsFloor OR IsGoal OR IsBox) then f + 1 else f),
        st OR push_bit (FloorBits g * (off + 1)) (StateType_of (at2 (FloorIndex g) (fst b) (snd b))),
        off + 1)"
    by (simp add: Let_def)
  show ?case
    unfolding step Cons.IH [OF d bs dist] same at2_or2_same [OF Cons.prems(1) b]
    by simp
qed


definition base_ok :: "('s::len) Game \<Rightarrow> bool" where
  "base_ok g \<longleftrightarrow>
     finite (BoxPos g) \<and> finite (GoalPos g) \<and>
     (\<forall>p \<in> BoxPos g. CheckFloor g (fst p) (snd p)) \<and>
     (\<forall>p \<in> GoalPos g. CheckFloor g (fst p) (snd p)) \<and>
     CheckFloor g (fst (PlayerPos g)) (snd (PlayerPos g)) \<and>
     PlayerPos g \<notin> BoxPos g"

definition cell :: "('s::len) Game \<Rightarrow> Pos \<Rightarrow> PosInt" where
  "cell g q =
     (if at2 (FloorIndex g) (fst q) (snd q) \<ge> 0 then IsFloor else IsWall)
     OR (if q \<in> GoalPos g then IsGoal else 0)
     OR (if q \<in> BoxPos g then IsBox else 0)
     OR (if q = PlayerPos g then IsPlayer else 0)"

definition boxes_result ::
  "('s::len) Game \<Rightarrow> PosInt list list \<times> int \<times> 's word \<times> nat" where
  "boxes_result g =
     UpdateData_boxes g (sorted_list_of_set (BoxPos g))
       (UpdateData_goals (sorted_list_of_set (GoalPos g)) (UpdateData_floor g), 0,
        StateType_of (at2 (FloorIndex g) (fst (PlayerPos g)) (snd (PlayerPos g))), 0)"

lemma UpdateData_fields:
  "Maze (UpdateData g) = or2 (fst (boxes_result g)) (PlayerPos g) IsPlayer"
  "Finished (UpdateData g) = fst (snd (boxes_result g))"
  "State (UpdateData g) = fst (snd (snd (boxes_result g)))"
  "Directions (UpdateData g) =
     UpdateData_directions (g\<lparr>Maze := or2 (fst (boxes_result g)) (PlayerPos g) IsPlayer,
        Finished := fst (snd (boxes_result g)), State := fst (snd (snd (boxes_result g)))\<rparr>)"
  "Height (UpdateData g) = Height g" "Width (UpdateData g) = Width g"
  "FloorBits (UpdateData g) = FloorBits g" "TimeElapsed (UpdateData g) = TimeElapsed g"
  "PlayerPos0 (UpdateData g) = PlayerPos0 g" "PlayerPos (UpdateData g) = PlayerPos g"
  "BoxPos0 (UpdateData g) = BoxPos0 g" "BoxPos (UpdateData g) = BoxPos g"
  "GoalPos (UpdateData g) = GoalPos g" "FloorIndex (UpdateData g) = FloorIndex g"
  "StateHistory (UpdateData g) = StateHistory g"
  by (simp_all add: UpdateData_def boxes_result_def Let_def case_prod_beta)

lemma CheckFloor_cong:
  "Height g = Height h \<Longrightarrow> Width g = Width h \<Longrightarrow> FloorIndex g = FloorIndex h
   \<Longrightarrow> CheckFloor g = CheckFloor h"
  by (intro ext) (simp add: CheckFloor_def)

lemma CheckFloor_UpdateData: "CheckFloor (UpdateData g) = CheckFloor g"
  by (rule CheckFloor_cong) (simp_all add: UpdateData_fields)

lemma in_grid_UpdateData: "in_grid (UpdateData g) = in_grid g"
  by (intro ext) (simp add: in_grid_def UpdateData_fields)

lemma base_ok_grid:
  assumes "base_ok g"
  shows "grid_set g (set (sorted_list_of_set (GoalPos g)))"
    "grid_set g (set (sorted_list_of_set (BoxPos g)))" "in_grid g (PlayerPos g)"
proof -
  show "grid_set g (set (sorted_list_of_set (GoalPos g)))"
    using assms CheckFloor_in_grid [of g] by (auto simp: base_ok_def grid_set_def)
  show "grid_set g (set (sorted_list_of_set (BoxPos g)))"
    using assms CheckFloor_in_grid [of g] by (auto simp: base_ok_def grid_set_def)
  from assms have "CheckFloor g (fst (PlayerPos g)) (snd (PlayerPos g))" by (simp add: base_ok_def)
  from CheckFloor_in_grid [OF this] show "in_grid g (PlayerPos g)" by simp
qed

lemma Maze_UpdateData:
  assumes "base_ok g" "in_grid g q"
  shows "at2 (Maze (UpdateData g)) (fst q) (snd q) = cell g q"
proof -
  let ?m0 = "UpdateData_goals (sorted_list_of_set (GoalPos g)) (UpdateData_floor g)"
  have d0: "dims ?m0 (Height g) (Width g)"
    by (rule dims_UpdateData_goals [OF dims_UpdateData_floor])
  have d1: "dims (fst (boxes_result g)) (Height g) (Width g)"
    unfolding boxes_result_def by (rule UpdateData_boxes_dims [OF d0])
  have fin: "finite (GoalPos g)" "finite (BoxPos g)" using assms(1) by (simp_all add: base_ok_def)
  have m0: "at2 ?m0 (fst q) (snd q) =
      (if at2 (FloorIndex g) (fst q) (snd q) \<ge> 0 then IsFloor else IsWall)
      OR (if q \<in> GoalPos g then IsGoal else 0)"
    using at2_UpdateData_goals [OF dims_UpdateData_floor base_ok_grid(1) [OF assms(1)] assms(2)]
      at2_UpdateData_floor [of g "fst q" "snd q"] assms(2) fin
    by simp
  have m1: "at2 (fst (boxes_result g)) (fst q) (snd q) =
      at2 ?m0 (fst q) (snd q) OR (if q \<in> BoxPos g then IsBox else 0)"
    unfolding boxes_result_def
    using UpdateData_boxes_maze [OF d0 base_ok_grid(2) [OF assms(1)] assms(2)] fin
    by simp
  show ?thesis
    unfolding UpdateData_fields at2_or2_pos [OF d1 base_ok_grid(3) [OF assms(1)] assms(2)] m1 m0 cell_def
    by (auto simp: or.assoc)
qed


lemma CheckFloor_FloorIndex: "CheckFloor g l c \<Longrightarrow> at2 (FloorIndex g) l c \<ge> 0"
  by (simp add: CheckFloor_def split: if_splits)

lemma Finished_UpdateData:
  assumes "base_ok g"
  shows "Finished (UpdateData g) = int (card (BoxPos g \<inter> GoalPos g))"
proof -
  let ?m0 = "UpdateData_goals (sorted_list_of_set (GoalPos g)) (UpdateData_floor g)"
  let ?bs = "sorted_list_of_set (BoxPos g)"
  have d0: "dims ?m0 (Height g) (Width g)"
    by (rule dims_UpdateData_goals [OF dims_UpdateData_floor])
  have fin: "finite (GoalPos g)" "finite (BoxPos g)" using assms(1) by (simp_all add: base_ok_def)
  have m0: "at2 ?m0 (fst b) (snd b) = IsFloor OR (if b \<in> GoalPos g then IsGoal else 0)"
    if "b \<in> BoxPos g" for b
  proof -
    from that assms have cf: "CheckFloor g (fst b) (snd b)" by (simp add: base_ok_def)
    from CheckFloor_in_grid [OF cf] have ig: "in_grid g b" by simp
    show ?thesis
      using at2_UpdateData_goals [OF dims_UpdateData_floor base_ok_grid(1) [OF assms(1)] ig]
        at2_UpdateData_floor [of g "fst b" "snd b"] ig fin CheckFloor_FloorIndex [OF cf]
      by simp
  qed
  have flt: "filter (\<lambda>b. at2 ?m0 (fst b) (snd b) OR IsBox = (IsFloor OR IsGoal OR IsBox)) ?bs
           = filter (\<lambda>b. b \<in> GoalPos g) ?bs"
  proof (rule filter_cong [OF refl])
    fix b assume "b \<in> set ?bs"
    with fin have "b \<in> BoxPos g" by simp
    from m0 [OF this]
    show "(at2 ?m0 (fst b) (snd b) OR IsBox = (IsFloor OR IsGoal OR IsBox)) = (b \<in> GoalPos g)"
      by (simp add: IsFloor_def IsGoal_def IsBox_def)
  qed
  have "distinct (filter (\<lambda>b. b \<in> GoalPos g) ?bs)" by simp
  then have "length (filter (\<lambda>b. b \<in> GoalPos g) ?bs) = card (set (filter (\<lambda>b. b \<in> GoalPos g) ?bs))"
    by (rule distinct_card [symmetric])
  also have "set (filter (\<lambda>b. b \<in> GoalPos g) ?bs) = BoxPos g \<inter> GoalPos g"
    using fin by auto
  finally have len: "length (filter (\<lambda>b. b \<in> GoalPos g) ?bs) = card (BoxPos g \<inter> GoalPos g)" .
  show ?thesis
    unfolding UpdateData_fields boxes_result_def
      UpdateData_boxes_finished [OF d0 base_ok_grid(2) [OF assms(1)] distinct_sorted_list_of_set]
      flt len
    by simp
qed

lemma CheckDirection_False:
  "CheckDirection g d l c False \<longleftrightarrow>
     CheckFloor g (l + fst (Movement d)) (c + snd (Movement d)) \<and>
     at2 (Maze g) (l + fst (Movement d)) (c + snd (Movement d)) AND IsBox = 0"
  by (subst CheckDirection.simps) (simp add: Let_def)

lemma CheckDirection_True:
  "CheckDirection g d l c True \<longleftrightarrow>
     CheckFloor g (l + fst (Movement d)) (c + snd (Movement d)) \<and>
     (at2 (Maze g) (l + fst (Movement d)) (c + snd (Movement d)) AND IsBox \<noteq> 0 \<longrightarrow>
        CheckFloor g (l + fst (Movement d) + fst (Movement d)) (c + snd (Movement d) + snd (Movement d)) \<and>
        at2 (Maze g) (l + fst (Movement d) + fst (Movement d)) (c + snd (Movement d) + snd (Movement d))
          AND IsBox = 0)"
  by (subst CheckDirection.simps) (auto simp: Let_def CheckDirection_False)

lemma CheckDirection_cong:
  assumes "Height g = Height h" "Width g = Width h" "FloorIndex g = FloorIndex h" "Maze g = Maze h"
  shows "CheckDirection g d l c b = CheckDirection h d l c b"
  using CheckFloor_cong [OF assms(1-3)] assms(4)
  by (cases b) (simp_all add: CheckDirection_True CheckDirection_False)

lemma fold_directions_unit:
  assumes "d \<in> {Up, Left, Right, Down}"
  shows "(fold (\<lambda>d dirs. if P d then dirs OR d else dirs) [Up, Left, Right, Down] NoDirection AND d \<noteq> 0) = P d"
proof -
  have "d = Up \<or> d = Left \<or> d = Right \<or> d = Down" using assms by simp
  then show ?thesis
  proof (elim disjE)
    assume "d = Up" then show ?thesis
      by (cases "P Up"; cases "P Left"; cases "P Right"; cases "P Down")
         (simp_all add: Up_def Left_def Right_def Down_def NoDirection_def)
  next
    assume "d = Left" then show ?thesis
      by (cases "P Up"; cases "P Left"; cases "P Right"; cases "P Down")
         (simp_all add: Up_def Left_def Right_def Down_def NoDirection_def)
  next
    assume "d = Right" then show ?thesis
      by (cases "P Up"; cases "P Left"; cases "P Right"; cases "P Down")
         (simp_all add: Up_def Left_def Right_def Down_def NoDirection_def)
  next
    assume "d = Down" then show ?thesis
      by (cases "P Up"; cases "P Left"; cases "P Right"; cases "P Down")
         (simp_all add: Up_def Left_def Right_def Down_def NoDirection_def)
  qed
qed

lemma UpdateData_directions_unit:
  assumes "d \<in> {Up, Left, Right, Down}"
  shows "(UpdateData_directions g AND d \<noteq> 0) =
         CheckDirection g d (fst (PlayerPos g)) (snd (PlayerPos g)) True"
  unfolding UpdateData_directions_def by (rule fold_directions_unit [OF assms])

lemma Directions_UpdateData:
  assumes "d \<in> {Up, Left, Right, Down}"
  shows "(Directions (UpdateData g) AND d \<noteq> 0) =
         CheckDirection (UpdateData g) d (fst (PlayerPos g)) (snd (PlayerPos g)) True"
proof -
  let ?g1 = "g\<lparr>Maze := or2 (fst (boxes_result g)) (PlayerPos g) IsPlayer,
        Finished := fst (snd (boxes_result g)), State := fst (snd (snd (boxes_result g)))\<rparr>"
  have "(Directions (UpdateData g) AND d \<noteq> 0) =
        CheckDirection ?g1 d (fst (PlayerPos ?g1)) (snd (PlayerPos ?g1)) True"
    unfolding UpdateData_fields(4) by (rule UpdateData_directions_unit [OF assms])
  also have "\<dots> = CheckDirection ?g1 d (fst (PlayerPos g)) (snd (PlayerPos g)) True" by simp
  also have "\<dots> = CheckDirection (UpdateData g) d (fst (PlayerPos g)) (snd (PlayerPos g)) True"
    by (rule CheckDirection_cong) (simp_all add: UpdateData_fields)
  finally show ?thesis .
qed

text \<open>A move as the claims describe it: the destination is floor, and a box there has a
  free floor cell behind it.\<close>

definition step_pos :: "Pos \<Rightarrow> DirectionInt \<Rightarrow> Pos" where
  "step_pos p d = (fst p + fst (Movement d), snd p + snd (Movement d))"

definition legal_move :: "('s::len) Game \<Rightarrow> DirectionInt \<Rightarrow> bool" where
  "legal_move g d \<longleftrightarrow>
     CheckFloor g (fst (step_pos (PlayerPos g) d)) (snd (step_pos (PlayerPos g) d)) \<and>
     (step_pos (PlayerPos g) d \<in> BoxPos g \<longrightarrow>
        CheckFloor g (fst (step_pos (step_pos (PlayerPos g) d) d)) (snd (step_pos (step_pos (PlayerPos g) d) d)) \<and>
        step_pos (step_pos (PlayerPos g) d) d \<notin> BoxPos g)"

lemma cell_box: "cell g q AND IsBox \<noteq> 0 \<longleftrightarrow> q \<in> BoxPos g"
  by (simp add: cell_def IsFloor_def IsWall_def IsGoal_def IsBox_def IsPlayer_def)

lemma legal_UpdateData:
  assumes "base_ok g" "d \<in> {Up, Left, Right, Down}"
  shows "(Directions (UpdateData g) AND d \<noteq> 0) = legal_move g d"
proof -
  let ?g' = "UpdateData g"
  let ?q = "step_pos (PlayerPos g) d"
  let ?r = "step_pos ?q d"
  have box: "(at2 (Maze ?g') (fst p) (snd p) AND IsBox \<noteq> 0) = (p \<in> BoxPos g)"
    if "CheckFloor g (fst p) (snd p)" for p
  proof -
    from CheckFloor_in_grid [OF that] have "in_grid g p" by simp
    from Maze_UpdateData [OF assms(1) this] show ?thesis by (simp add: cell_box)
  qed
  have "(Directions ?g' AND d \<noteq> 0) =
      (CheckFloor g (fst ?q) (snd ?q) \<and>
       (at2 (Maze ?g') (fst ?q) (snd ?q) AND IsBox \<noteq> 0 \<longrightarrow>
          CheckFloor g (fst ?r) (snd ?r) \<and> at2 (Maze ?g') (fst ?r) (snd ?r) AND IsBox = 0))"
    unfolding Directions_UpdateData [OF assms(2)] CheckDirection_True CheckFloor_UpdateData
    by (simp add: step_pos_def)
  also have "\<dots> = legal_move g d"
    unfolding legal_move_def using box [of ?q] box [of ?r] by auto
  finally show ?thesis .
qed

subsection \<open>What the constructor establishes\<close>

definition grid_part :: "int \<Rightarrow> int \<Rightarrow> Pos list \<Rightarrow> int \<Rightarrow> int \<Rightarrow> bool" where
  "grid_part h w fq line col \<longleftrightarrow>
     0 \<le> line \<and> line < 125 \<and> - 1 \<le> col \<and> h = line + 1 \<and> col < w \<and> w \<le> 125 \<and>
     (\<forall>p \<in> set fq. 0 \<le> fst p \<and> fst p \<le> line \<and> 0 \<le> snd p \<and> snd p < w \<and>
                    (fst p = line \<longrightarrow> snd p \<le> col)) \<and>
     distinct fq"

definition sets_part :: "('s::len) Game \<Rightarrow> Pos list \<Rightarrow> bool" where
  "sets_part g fq \<longleftrightarrow>
     GoalPos g \<subseteq> set fq \<and> BoxPos0 g \<subseteq> set fq \<and>
     (PlayerPos0 g = (- 1, - 1) \<or> PlayerPos0 g \<in> set fq) \<and>
     PlayerPos0 g \<notin> BoxPos0 g"

definition parse_inv :: "('s::len) Game \<times> Pos list \<times> int \<times> int \<Rightarrow> bool" where
  "parse_inv st \<longleftrightarrow>
     (case st of (g, fq, line, col) \<Rightarrow> grid_part (Height g) (Width g) fq line col \<and> sets_part g fq)"

lemma parse_inv_init:
  "parse_inv (Game_empty\<lparr>PlayerPos0 := (- 1, - 1), Height := 1, Width := 0\<rparr>, [], 0, - 1)"
  by (simp add: parse_inv_def grid_part_def sets_part_def Game_empty_def)

lemma grid_fresh:
  assumes "grid_part h w fq line col"
  shows "(line, col + 1) \<notin> set fq" "(- 1, - 1) \<notin> set fq"
  using assms by (force simp: grid_part_def)+

lemma grid_append:
  assumes "grid_part h w fq line col" "col + 1 < w"
  shows "grid_part h w (fq @ [(line, col + 1)]) line (col + 1)"
  using assms grid_fresh(1) [OF assms(1)]
  by (auto simp: grid_part_def)

lemma grid_skip:
  assumes "grid_part h w fq line col" "col + 1 < w"
  shows "grid_part h w fq line (col + 1)"
  using assms by (auto simp: grid_part_def)

lemma grid_widen:
  assumes "grid_part h w fq line col" "w \<le> w'" "w' \<le> 125"
  shows "grid_part h w' fq line col"
  using assms by (auto simp: grid_part_def)

lemma grid_newline:
  assumes "grid_part h w fq line col" "line + 1 < 125"
  shows "grid_part (line + 1 + 1) w fq (line + 1) (- 1)"
proof -
  from assms have "0 \<le> w" by (auto simp: grid_part_def)
  with assms show ?thesis by (auto simp: grid_part_def)
qed

lemma parse_inv_cell:
  assumes g: "grid_part (Height g) (Width g) fq line col" and s: "sets_part g fq"
    and w: "col + 1 < Width g"
    and cell: "Game_cell c (g, fq, line, col + 1) = Inr st'"
  shows "parse_inv st'"
proof -
  note ga = grid_append [OF g w] and gs = grid_skip [OF g w] and fr = grid_fresh [OF g]
  have ne: "(line, col + 1) \<noteq> (- 1, - 1)" using g by (auto simp: grid_part_def)
  consider (dot) "c = CHR ''.''" | (star) "c = CHR ''*''" | (dollar) "c = CHR ''$''"
    | (amp) "c = CHR ''&''" | (plus) "c = CHR ''+''" | (at) "c = CHR ''@''"
    | (other) "c \<notin> {CHR ''.'', CHR ''*'', CHR ''$'', CHR ''&'', CHR ''+'', CHR ''@''}"
    by auto
  then show ?thesis
  proof cases
    case dot
    with cell have "st' = (g, fq @ [(line, col + 1)], line, col + 1)" by (simp add: Game_cell_def)
    with ga s show ?thesis by (auto simp: parse_inv_def sets_part_def)
  next
    case star
    with cell have "st' = (g\<lparr>PlayerPos0 := (line, col + 1)\<rparr>, fq @ [(line, col + 1)], line, col + 1)"
      by (simp add: Game_cell_def split: if_splits)
    with ga s fr show ?thesis by (auto simp: parse_inv_def sets_part_def)
  next
    case dollar
    with cell have "st' = (g\<lparr>GoalPos := insert (line, col + 1) (GoalPos g)\<rparr>,
        fq @ [(line, col + 1)], line, col + 1)"
      by (simp add: Game_cell_def)
    with ga s show ?thesis by (auto simp: parse_inv_def sets_part_def)
  next
    case amp
    with cell have "st' = (g\<lparr>BoxPos0 := insert (line, col + 1) (BoxPos0 g)\<rparr>,
        fq @ [(line, col + 1)], line, col + 1)"
      by (simp add: Game_cell_def)
    with ga s fr ne show ?thesis by (auto simp: parse_inv_def sets_part_def)
  next
    case plus
    with cell have "st' = (g\<lparr>PlayerPos0 := (line, col + 1), GoalPos := insert (line, col + 1) (GoalPos g)\<rparr>,
        fq @ [(line, col + 1)], line, col + 1)"
      by (simp add: Game_cell_def split: if_splits)
    with ga s fr show ?thesis by (auto simp: parse_inv_def sets_part_def)
  next
    case at
    with cell have "st' = (g\<lparr>BoxPos0 := insert (line, col + 1) (BoxPos0 g),
        GoalPos := insert (line, col + 1) (GoalPos g)\<rparr>, fq @ [(line, col + 1)], line, col + 1)"
      by (simp add: Game_cell_def)
    with ga s fr ne show ?thesis by (auto simp: parse_inv_def sets_part_def)
  next
    case other
    with cell have "st' = (g, fq, line, col + 1)" by (simp add: Game_cell_def)
    with gs s show ?thesis by (auto simp: parse_inv_def)
  qed
qed

lemma sets_part_cong:
  "GoalPos g = GoalPos h \<Longrightarrow> BoxPos0 g = BoxPos0 h \<Longrightarrow> PlayerPos0 g = PlayerPos0 h
   \<Longrightarrow> sets_part g fq = sets_part h fq"
  by (simp add: sets_part_def)

lemma parse_inv_char:
  assumes "parse_inv st" "Game_char c st = Inr st'"
  shows "parse_inv st'"
proof -
  obtain g fq line col where st: "st = (g, fq, line, col)" by (cases st) auto
  from assms(1) have g: "grid_part (Height g) (Width g) fq line col" and s: "sets_part g fq"
    by (simp_all add: st parse_inv_def)
  consider (cr) "c = CHR 0x0D" | (nl) "c = CHR 0x0A" | (cell) "c \<noteq> CHR 0x0D" "c \<noteq> CHR 0x0A" by auto
  then show ?thesis
  proof cases
    case cr
    with assms show ?thesis by (simp add: st Game_char_def)
  next
    case nl
    from g have h: "Height g = line + 1" by (simp add: grid_part_def)
    from nl assms(2) h have "st' = (g\<lparr>Height := line + 1 + 1\<rparr>, fq, line + 1, - 1)"
      and small: "line + 1 < 125"
      by (simp_all add: st Game_char_def Let_def split: if_splits)
    with grid_newline [OF g small] s show ?thesis
      by (simp add: parse_inv_def sets_part_def)
  next
    case cell
    let ?g = "if col + 1 \<ge> Width g then g\<lparr>Width := col + 1 + 1\<rparr> else g"
    from assms(2) cell have c: "Game_cell c (?g, fq, line, col + 1) = Inr st'"
      by (simp add: st Game_char_def Let_def split: if_splits)
    from assms(2) cell have small: "col + 1 < 125"
      by (simp add: st Game_char_def Let_def split: if_splits)
    have "Width g \<le> Width ?g" by simp
    moreover have "Width ?g \<le> 125" using small g by (simp add: grid_part_def)
    ultimately have g': "grid_part (Height ?g) (Width ?g) fq line col"
      using grid_widen [OF g, of "Width ?g"] by (cases "col + 1 \<ge> Width g") simp_all
    have s': "sets_part ?g fq" using s by (simp add: sets_part_def)
    have w: "col + 1 < Width ?g" by simp
    show ?thesis by (rule parse_inv_cell [OF g' s' w c])
  qed
qed

lemma parse_inv_chars:
  assumes "parse_inv st" "Game_chars cs st = Inr st'"
  shows "parse_inv st'"
  using assms
proof (induction cs arbitrary: st)
  case Nil
  then show ?case by simp
next
  case (Cons c cs)
  from Cons.prems(2) obtain st1 where a: "Game_char c st = Inr st1" and b: "Game_chars cs st1 = Inr st'"
    by (auto split: sum.splits)
  from Cons.IH [OF parse_inv_char [OF Cons.prems(1) a] b] show ?case .
qed

lemma dims_set2: "dims m h w \<Longrightarrow> dims (set2 m p v) h w"
proof (cases "nat (fst p) < length m")
  case True
  assume "dims m h w"
  with True show ?thesis
    by (auto simp: dims_def set2_def dest!: set_update_subset_insert [THEN subsetD])
next
  case False
  assume "dims m h w"
  with False show ?thesis by (simp add: set2_def list_update_beyond)
qed

lemma at2_set2:
  assumes "dims m h w" "0 \<le> fst p" "fst p < h" "0 \<le> snd p" "snd p < w"
    and "0 \<le> fst q" "0 \<le> snd q"
  shows "at2 (set2 m p v) (fst q) (snd q) = (if q = p then v else at2 m (fst q) (snd q))"
proof -
  have l: "nat (fst p) < length m" using assms by (simp add: dims_def)
  then have "m ! nat (fst p) \<in> set m" by simp
  with assms have r: "nat (snd p) < length (m ! nat (fst p))" by (simp add: dims_def)
  show ?thesis
  proof (cases "fst q = fst p")
    case True
    show ?thesis
    proof (cases "snd q = snd p")
      case True
      with \<open>fst q = fst p\<close> l r show ?thesis
        by (simp add: at2_def set2_def prod_eq_iff)
    next
      case False
      with assms have "nat (snd q) \<noteq> nat (snd p)" by simp
      with \<open>fst q = fst p\<close> l False show ?thesis
        by (auto simp: at2_def set2_def prod_eq_iff)
    qed
  next
    case False
    with assms have "nat (fst q) \<noteq> nat (fst p)" by simp
    with False show ?thesis
      by (auto simp: at2_def set2_def prod_eq_iff)
  qed
qed

definition in_range :: "int \<Rightarrow> int \<Rightarrow> Pos \<Rightarrow> bool" where
  "in_range h w p \<longleftrightarrow> 0 \<le> fst p \<and> fst p < h \<and> 0 \<le> snd p \<and> snd p < w"

lemma dims_FloorIndex_fill: "dims fi h w \<Longrightarrow> dims (FloorIndex_fill fq idx fi) h w"
  by (induction fq arbitrary: idx fi) (simp_all add: dims_set2)

lemma FloorIndex_fill_other:
  assumes "dims fi h w" "\<forall>p \<in> set fq. in_range h w p" "in_range h w q" "q \<notin> set fq"
  shows "at2 (FloorIndex_fill fq idx fi) (fst q) (snd q) = at2 fi (fst q) (snd q)"
  using assms(1,2,4)
proof (induction fq arbitrary: idx fi)
  case Nil
  then show ?case by simp
next
  case (Cons p fq)
  from Cons.prems have p: "in_range h w p" and rest: "\<forall>p \<in> set fq. in_range h w p"
    and ne: "q \<noteq> p" and nin: "q \<notin> set fq" by auto
  have "at2 (set2 fi p (idx + 1)) (fst q) (snd q) = at2 fi (fst q) (snd q)"
    using at2_set2 [OF Cons.prems(1), of p q "idx + 1"] p assms(3) ne by (simp add: in_range_def)
  with Cons.IH [OF dims_set2 [OF Cons.prems(1)] rest nin] show ?case by simp
qed

lemma FloorIndex_fill_nth:
  assumes "dims fi h w" "\<forall>p \<in> set fq. in_range h w p" "distinct fq" "k < length fq"
  shows "at2 (FloorIndex_fill fq idx fi) (fst (fq ! k)) (snd (fq ! k)) = idx + 1 + int k"
  using assms
proof (induction fq arbitrary: idx fi k)
  case Nil
  then show ?case by simp
next
  case (Cons p fq)
  from Cons.prems have p: "in_range h w p" and rest: "\<forall>p \<in> set fq. in_range h w p"
    and nin: "p \<notin> set fq" and dist: "distinct fq" by auto
  note d = dims_set2 [OF Cons.prems(1), of p "idx + 1"]
  show ?case
  proof (cases k)
    case 0
    have "at2 (FloorIndex_fill fq (idx + 1) (set2 fi p (idx + 1))) (fst p) (snd p)
          = at2 (set2 fi p (idx + 1)) (fst p) (snd p)"
      by (rule FloorIndex_fill_other [OF d rest p nin])
    also have "\<dots> = idx + 1"
      using at2_set2 [OF Cons.prems(1), of p p "idx + 1"] p by (simp add: in_range_def)
    finally show ?thesis using 0 by simp
  next
    case (Suc j)
    with Cons.prems(4) have "j < length fq" by simp
    from Cons.IH [OF d rest dist this, of "idx + 1"] Suc show ?thesis by simp
  qed
qed

definition static_ok :: "('s::len) Game \<Rightarrow> bool" where
  "static_ok g \<longleftrightarrow>
     finite (GoalPos g) \<and> finite (BoxPos0 g) \<and>
     (\<forall>p \<in> GoalPos g. CheckFloor g (fst p) (snd p)) \<and>
     (\<forall>p \<in> BoxPos0 g. CheckFloor g (fst p) (snd p)) \<and>
     CheckFloor g (fst (PlayerPos0 g)) (snd (PlayerPos0 g)) \<and>
     PlayerPos0 g \<notin> BoxPos0 g \<and>
     (\<forall>l c. CheckFloor g l c \<longrightarrow> at2 (FloorIndex g) l c < 2 ^ FloorBits g) \<and>
     (\<forall>l c. CheckFloor g l c \<longrightarrow> at2 (FloorIndex g) l c < 15625) \<and>
     FloorBits g * (card (BoxPos0 g) + 1) \<le> LENGTH('s)"

lemma static_ok_cong:
  fixes g h :: "('s::len) Game"
  assumes "Height g = Height h" "Width g = Width h" "FloorIndex g = FloorIndex h"
    "GoalPos g = GoalPos h" "BoxPos0 g = BoxPos0 h" "PlayerPos0 g = PlayerPos0 h"
    "FloorBits g = FloorBits h"
  shows "static_ok g = static_ok h"
  unfolding static_ok_def CheckFloor_cong [OF assms(1-3)] assms(3-7) ..

lemma FloorBits_loop_add: "FloorBits_loop n b = b + FloorBits_loop n 0"
proof (induction n arbitrary: b rule: less_induct)
  case (less n)
  show ?case
  proof (cases "n = 0")
    case True
    then show ?thesis by (simp add: FloorBits_loop.simps)
  next
    case False
    then have "n div 2 < n" by simp
    from less [OF this, of "b + 1"] less [OF this, of 1] False
    show ?thesis by (simp add: FloorBits_loop.simps [of n])
  qed
qed

lemma FloorBits_loop_bound: "n < 2 ^ FloorBits_loop n 0"
proof (induction n rule: less_induct)
  case (less n)
  show ?case
  proof (cases "n = 0")
    case True
    then show ?thesis by (simp add: FloorBits_loop.simps)
  next
    case False
    then have lt: "n div 2 < n" by simp
    have "FloorBits_loop n 0 = 1 + FloorBits_loop (n div 2) 0"
      using False FloorBits_loop_add [of "n div 2" 1] by (simp add: FloorBits_loop.simps [of n])
    moreover have "n < 2 * 2 ^ FloorBits_loop (n div 2) 0"
      using less [OF lt] by linarith
    ultimately show ?thesis by simp
  qed
qed

lemma at2_replicate:
  "0 \<le> i \<Longrightarrow> i < h \<Longrightarrow> 0 \<le> j \<Longrightarrow> j < w \<Longrightarrow> at2 (replicate (nat h) (replicate (nat w) v)) i j = v"
  by (simp add: at2_def)

lemma dims_replicate: "dims (replicate (nat h) (replicate (nat w) v)) h w"
  by (simp add: dims_def)


lemma floor_queue_length:
  assumes "grid_part h w fq line col"
  shows "length fq \<le> 15625"
proof -
  from assms have d: "distinct fq" and h: "h \<le> 125" and w: "w \<le> 125"
    and sub: "set fq \<subseteq> {0..<h} \<times> {0..<w}"
    by (auto simp: grid_part_def)
  have "length fq = card (set fq)" using d by (simp add: distinct_card)
  also have "\<dots> \<le> card ({0..<h} \<times> {0..<w})" by (rule card_mono [OF _ sub]) simp
  also have "\<dots> = nat h * nat w" by simp
  also have "\<dots> \<le> 125 * 125" using h w by (intro mult_mono) auto
  finally show ?thesis by simp
qed

lemma filled_index:
  assumes g: "grid_part h w fq line col"
  defines "fi \<equiv> FloorIndex_fill fq (- 1) (replicate (nat h) (replicate (nat w) (- 1)))"
  shows "\<And>k. k < length fq \<Longrightarrow> at2 fi (fst (fq ! k)) (snd (fq ! k)) = int k"
    and "\<And>q. in_range h w q \<Longrightarrow> q \<notin> set fq \<Longrightarrow> at2 fi (fst q) (snd q) = - 1"
    and "\<And>p. p \<in> set fq \<Longrightarrow> in_range h w p"
proof -
  have rng: "\<forall>p \<in> set fq. in_range h w p" and dist: "distinct fq"
    using g by (auto simp: grid_part_def in_range_def)
  show "at2 fi (fst (fq ! k)) (snd (fq ! k)) = int k" if "k < length fq" for k
    unfolding fi_def using FloorIndex_fill_nth [OF dims_replicate rng dist that, of "- 1" "- 1"] by simp
  show "at2 fi (fst q) (snd q) = - 1" if "in_range h w q" "q \<notin> set fq" for q
    unfolding fi_def FloorIndex_fill_other [OF dims_replicate rng that]
    using that(1) by (simp add: at2_replicate in_range_def)
  show "in_range h w p" if "p \<in> set fq" for p using rng that by blast
qed

lemma Game_result:
  assumes "Game maze = Inr (g :: ('s::len) Game)"
  obtains g1 where "g = DoRestart g1" "static_ok g1"
proof -
  from assms obtain gp fq line col where
    parse: "Game_chars (trim_newlines maze)
              (Game_empty\<lparr>PlayerPos0 := (- 1, - 1), Height := 1, Width := 0\<rparr>, [], 0, - 1)
            = Inr (gp :: 's Game, fq, line, col)"
    by (auto simp: Game_def split: sum.splits)
  define fi where "fi = FloorIndex_fill fq (- 1) (replicate (nat (Height gp)) (replicate (nat (Width gp)) (- 1)))"
  define g1 where "g1 = gp\<lparr>FloorBits := FloorBits_loop (length fq - 1) 0, FloorIndex := fi\<rparr>"
  from assms parse have
    player: "fst (PlayerPos0 gp) + snd (PlayerPos0 gp) \<noteq> - 2"
    and bits: "FloorBits_loop (length fq - 1) 0 * (card (BoxPos0 gp) + 1) \<le> LENGTH('s)"
    and g: "g = DoRestart g1"
    by (auto simp: Game_def Let_def g1_def fi_def split: if_splits)
  from parse_inv_chars [OF parse_inv_init parse]
  have gr: "grid_part (Height gp) (Width gp) fq line col" and sp: "sets_part gp fq"
    by (simp_all add: parse_inv_def)
  note idx = filled_index [OF gr, folded fi_def]
  have cf: "CheckFloor g1 (fst p) (snd p)" if "p \<in> set fq" for p
  proof -
    from that obtain k where k: "k < length fq" "p = fq ! k" by (auto simp: in_set_conv_nth)
    from idx(1) [OF k(1)] k(2) have "at2 fi (fst p) (snd p) \<ge> 0" by simp
    with idx(3) [OF that] show ?thesis
      by (simp add: CheckFloor_def g1_def in_range_def)
  qed
  have floor_in: "(l, c) \<in> set fq" if "CheckFloor g1 l c" for l c
  proof (rule ccontr)
    assume "(l, c) \<notin> set fq"
    moreover from that have "in_range (Height gp) (Width gp) (l, c)"
      by (simp add: CheckFloor_def g1_def in_range_def split: if_splits)
    ultimately have "at2 fi l c = - 1" using idx(2) [of "(l, c)"] by simp
    with that show False by (simp add: CheckFloor_def g1_def split: if_splits)
  qed
  have bound2: "at2 (FloorIndex g1) l c < 15625" if "CheckFloor g1 l c" for l c
  proof -
    from floor_in [OF that] obtain k where k: "k < length fq" "(l, c) = fq ! k"
      by (auto simp: in_set_conv_nth)
    from idx(1) [OF k(1)] k(2) have "at2 fi l c = int k" by (metis fst_conv snd_conv)
    with k(1) floor_queue_length [OF gr] show ?thesis by (simp add: g1_def)
  qed
  have bound: "at2 (FloorIndex g1) l c < 2 ^ FloorBits g1" if "CheckFloor g1 l c" for l c
  proof -
    from floor_in [OF that] obtain k where k: "k < length fq" "(l, c) = fq ! k"
      by (auto simp: in_set_conv_nth)
    from idx(1) [OF k(1)] k(2) have "at2 fi l c = int k" by (metis fst_conv snd_conv)
    moreover have "k \<le> length fq - 1" using k(1) by simp
    moreover have "length fq - 1 < 2 ^ FloorBits_loop (length fq - 1) 0" by (rule FloorBits_loop_bound)
    ultimately have "at2 fi l c < int (2 ^ FloorBits_loop (length fq - 1) 0)" by linarith
    then show ?thesis by (simp add: g1_def)
  qed
  from player sp have pl: "PlayerPos0 gp \<in> set fq" by (auto simp: sets_part_def)
  have "static_ok g1"
    unfolding static_ok_def
  proof (intro conjI)
    show "finite (GoalPos g1)" "finite (BoxPos0 g1)"
      using sp by (auto simp: sets_part_def g1_def intro: finite_subset)
    show "\<forall>p \<in> GoalPos g1. CheckFloor g1 (fst p) (snd p)"
      using sp cf by (auto simp: sets_part_def g1_def)
    show "\<forall>p \<in> BoxPos0 g1. CheckFloor g1 (fst p) (snd p)"
      using sp cf by (auto simp: sets_part_def g1_def)
    show "CheckFloor g1 (fst (PlayerPos0 g1)) (snd (PlayerPos0 g1))"
      using cf [OF pl] by (simp add: g1_def)
    show "PlayerPos0 g1 \<notin> BoxPos0 g1" using sp by (simp add: sets_part_def g1_def)
    show "\<forall>l c. CheckFloor g1 l c \<longrightarrow> at2 (FloorIndex g1) l c < 2 ^ FloorBits g1"
      using bound by blast
    show "\<forall>l c. CheckFloor g1 l c \<longrightarrow> at2 (FloorIndex g1) l c < 15625"
      using bound2 by blast
    show "FloorBits g1 * (card (BoxPos0 g1) + 1) \<le> LENGTH('s)"
      using bits by (simp add: g1_def)
  qed
  with g show ?thesis by (rule that)
qed

definition inv :: "('s::len) Game \<Rightarrow> bool" where
  "inv g \<longleftrightarrow> static_ok g \<and> base_ok g \<and> card (BoxPos g) = card (BoxPos0 g) \<and> (\<exists>g0. g = UpdateData g0)"

lemma base_ok_cong:
  fixes g h :: "('s::len) Game"
  assumes "Height g = Height h" "Width g = Width h" "FloorIndex g = FloorIndex h"
    "BoxPos g = BoxPos h" "GoalPos g = GoalPos h" "PlayerPos g = PlayerPos h"
  shows "base_ok g = base_ok h"
  unfolding base_ok_def CheckFloor_cong [OF assms(1-3)] assms(4-6) ..

lemma base_ok_UpdateData: "base_ok (UpdateData g) = base_ok g"
  by (rule base_ok_cong) (simp_all add: UpdateData_fields)

lemma static_ok_UpdateData: "static_ok (UpdateData g) = static_ok g"
  by (rule static_ok_cong) (simp_all add: UpdateData_fields)

lemma inv_UpdateData:
  assumes "static_ok g" "base_ok g" "card (BoxPos g) = card (BoxPos0 g)"
  shows "inv (UpdateData g)"
  unfolding inv_def base_ok_UpdateData static_ok_UpdateData
  using assms by (auto simp: UpdateData_fields)

lemma inv_DoRestart:
  assumes "static_ok g"
  shows "inv (DoRestart g)"
  unfolding DoRestart_def
proof (rule inv_UpdateData)
  let ?g = "g\<lparr>TimeElapsed := 0, StateHistory := {}, PlayerPos := PlayerPos0 g, BoxPos := BoxPos0 g\<rparr>"
  show "static_ok ?g" using assms by (simp add: static_ok_cong [of ?g g])
  have cf: "CheckFloor ?g = CheckFloor g" by (rule CheckFloor_cong) simp_all
  show "base_ok ?g" using assms by (simp add: base_ok_def static_ok_def cf)
  show "card (BoxPos ?g) = card (BoxPos0 ?g)" by simp
qed

lemma inv_Maze:
  assumes "inv g" "in_grid g q"
  shows "at2 (Maze g) (fst q) (snd q) = cell g q"
proof -
  from assms(1) obtain g0 where g: "g = UpdateData g0" and b: "base_ok g" by (auto simp: inv_def)
  from b have b0: "base_ok g0" by (simp add: g base_ok_UpdateData)
  from assms(2) have "in_grid g0 q" by (simp add: g in_grid_UpdateData)
  from Maze_UpdateData [OF b0 this] show ?thesis
    by (simp add: g cell_def UpdateData_fields)
qed

lemma inv_Finished:
  assumes "inv g"
  shows "Finished g = int (card (BoxPos g \<inter> GoalPos g))"
proof -
  from assms(1) obtain g0 where g: "g = UpdateData g0" and b: "base_ok g" by (auto simp: inv_def)
  from b have b0: "base_ok g0" by (simp add: g base_ok_UpdateData)
  from Finished_UpdateData [OF b0] show ?thesis by (simp add: g UpdateData_fields)
qed

lemma inv_legal:
  assumes "inv g" "d \<in> {Up, Left, Right, Down}"
  shows "(Directions g AND d \<noteq> 0) = legal_move g d"
proof -
  from assms(1) obtain g0 where g: "g = UpdateData g0" and b: "base_ok g" by (auto simp: inv_def)
  from b have b0: "base_ok g0" by (simp add: g base_ok_UpdateData)
  from legal_UpdateData [OF b0 assms(2)] show ?thesis
    by (simp add: g legal_move_def UpdateData_fields CheckFloor_UpdateData)
qed

lemma Movement_unit_nonzero:
  "d \<in> {Up, Left, Right, Down} \<Longrightarrow> Movement d \<noteq> (0, 0) \<and> fst (Movement d) \<noteq> snd (Movement d)"
  by (auto simp: Movement_def Up_def Left_def Right_def Down_def)

text \<open>An accepted move, spelled out.\<close>

lemma DoMove_accepted:
  assumes "Directions g AND d \<noteq> 0" "d \<in> {Up, Left, Right, Down}"
  shows "DoMove g d =
     (step_pos (PlayerPos g) d \<in> BoxPos g,
      UpdateData (g\<lparr>TimeElapsed := TimeElapsed g + 1,
                     StateHistory := insert (State g) (StateHistory g),
                     PlayerPos := step_pos (PlayerPos g) d,
                     BoxPos := (if step_pos (PlayerPos g) d \<in> BoxPos g
                                then insert (step_pos (step_pos (PlayerPos g) d) d)
                                       (BoxPos g - {step_pos (PlayerPos g) d})
                                else BoxPos g)\<rparr>))"
  using assms Movement_unit_nonzero [OF assms(2)]
  by (simp add: DoMove_def Let_def step_pos_def)

lemma DoMove_rejected:
  assumes "\<not> (Directions g AND d \<noteq> 0 \<and> d \<in> {Up, Left, Right, Down})"
  shows "DoMove g d = (False, g)"
  using assms DoMove_not_unit [of d g] by (auto simp: DoMove_def)

lemma inv_DoMove:
  assumes "inv g" "DoMove g d = (pushed, g')"
  shows "inv g'"
proof (cases "Directions g AND d \<noteq> 0 \<and> d \<in> {Up, Left, Right, Down}")
  case False
  then have "DoMove g d = (False, g)"
    using DoMove_not_unit [of d g] by (auto simp: DoMove_def)
  with assms show ?thesis by simp
next
  case True
  then have legal: "Directions g AND d \<noteq> 0" and unit: "d \<in> {Up, Left, Right, Down}" by simp_all
  let ?q = "step_pos (PlayerPos g) d"
  let ?r = "step_pos ?q d"
  let ?B = "if ?q \<in> BoxPos g then insert ?r (BoxPos g - {?q}) else BoxPos g"
  let ?g1 = "g\<lparr>TimeElapsed := TimeElapsed g + 1, StateHistory := insert (State g) (StateHistory g),
                PlayerPos := ?q, BoxPos := ?B\<rparr>"
  from assms(2) have g': "g' = UpdateData ?g1"
    unfolding DoMove_accepted [OF legal unit] by (elim Pair_inject) (rule sym)
  from assms(1) have st: "static_ok g" and b: "base_ok g" and c: "card (BoxPos g) = card (BoxPos0 g)"
    by (simp_all add: inv_def)
  from inv_legal [OF assms(1) unit] legal have lm: "legal_move g d" by simp
  then have q: "CheckFloor g (fst ?q) (snd ?q)"
    and r: "?q \<in> BoxPos g \<Longrightarrow> CheckFloor g (fst ?r) (snd ?r) \<and> ?r \<notin> BoxPos g"
    by (simp_all add: legal_move_def)
  have ne: "?r \<noteq> ?q" using Movement_unit_nonzero [OF unit] by (auto simp: step_pos_def prod_eq_iff)
  have cf: "CheckFloor ?g1 = CheckFloor g" by (rule CheckFloor_cong) simp_all
  have fin: "finite (BoxPos g)" using b by (simp add: base_ok_def)
  show ?thesis
    unfolding g'
  proof (rule inv_UpdateData)
    show "static_ok ?g1" using st by (simp add: static_ok_cong [of ?g1 g])
    show "base_ok ?g1"
      using b q r ne by (auto simp: base_ok_def cf)
    show "card (BoxPos ?g1) = card (BoxPos0 ?g1)"
    proof (cases "?q \<in> BoxPos g")
      case True
      with r have "?r \<notin> BoxPos g - {?q}" by simp
      with fin have "card (insert ?r (BoxPos g - {?q})) = Suc (card (BoxPos g - {?q}))"
        by simp
      also have "\<dots> = card (BoxPos g)" using fin True by (rule card_Suc_Diff1)
      finally have "card (insert ?r (BoxPos g - {?q})) = card (BoxPos g)" .
      with True c show ?thesis by simp
    next
      case False
      with c show ?thesis by simp
    qed
  qed
qed

lemma reachable_inv: "reachable g \<Longrightarrow> inv g"
proof (induction rule: reachable.induct)
  case (construct maze g)
  from Game_result [OF construct] obtain g1 where "g = DoRestart g1" "static_ok g1" .
  then show ?case using inv_DoRestart by simp
next
  case (move g d pushed g')
  then show ?case using inv_DoMove [of g d pushed g'] by (simp add: Move_def)
next
  case (restart g)
  from restart.IH have "static_ok g" by (simp add: inv_def)
  from inv_DoRestart [OF this] show ?case by (simp add: Restart_def)
qed


lemma CheckFailed_boxes_mem:
  "b \<in> set bs \<Longrightarrow> CheckFailed_box g b \<Longrightarrow> CheckFailed_boxes g bs"
  by (induction bs) auto

lemma BoxStuck_wall_vertical:
  assumes "\<not> CheckFloor g (l - 1) c \<or> \<not> CheckFloor g (l + 1) c"
  shows "fst (BoxStuck g l c False {})"
  using assms by (subst BoxStuck.simps) (simp add: Let_def)

lemma BoxStuck_wall_horizontal:
  assumes "\<not> CheckFloor g l (c - 1) \<or> \<not> CheckFloor g l (c + 1)"
  shows "fst (BoxStuck g l c True {})"
  using assms by (subst BoxStuck.simps) (simp add: Let_def)

lemma CheckFailed_box_corner:
  assumes "\<not> CheckFloor g (fst b - 1) (snd b) \<or> \<not> CheckFloor g (fst b + 1) (snd b)"
    and "\<not> CheckFloor g (fst b) (snd b - 1) \<or> \<not> CheckFloor g (fst b) (snd b + 1)"
    and "at2 (Maze g) (fst b) (snd b) \<noteq> (IsFloor OR IsGoal OR IsBox)"
  shows "CheckFailed_box g b"
  using BoxStuck_wall_vertical [OF assms(1)] BoxStuck_wall_horizontal [OF assms(2)] assms(3)
  by (simp add: CheckFailed_box_def Let_def)

lemma UpdateData_Failed_eq:
  "Failed (UpdateData g) = CheckFailed ((UpdateData g)\<lparr>Failed := Failed g\<rparr>)"
  by (simp add: UpdateData_def Let_def case_prod_beta)

text \<open>
  C9.  In a reachable game, a box that is not on a goal cell and has a wall or
  off-grid cell among its two vertical neighbours and a wall or off-grid cell among
  its two horizontal neighbours makes \<open>Failed\<close> true: it is the value the
  recomputation in \<open>UpdateData\<close> stored.
\<close>

theorem corner_box_failed:
  assumes "reachable g" "b \<in> BoxPos g" "b \<notin> GoalPos g"
    and v: "\<not> CheckFloor g (fst b - 1) (snd b) \<or> \<not> CheckFloor g (fst b + 1) (snd b)"
    and h: "\<not> CheckFloor g (fst b) (snd b - 1) \<or> \<not> CheckFloor g (fst b) (snd b + 1)"
  shows "Failed g"
proof -
  from reachable_inv [OF assms(1)] have i: "inv g" .
  then obtain g0 where g: "g = UpdateData g0" and bo: "base_ok g"
    and c: "card (BoxPos g) = card (BoxPos0 g)" by (auto simp: inv_def)
  let ?h = "g\<lparr>Failed := Failed g0\<rparr>"
  have cf: "CheckFloor ?h = CheckFloor g" by (rule CheckFloor_cong) simp_all
  have fin: "finite (BoxPos g)" and bf: "CheckFloor g (fst b) (snd b)" and pb: "PlayerPos g \<notin> BoxPos g"
    using bo assms(2) by (auto simp: base_ok_def)
  from CheckFloor_in_grid [OF bf] have "in_grid g b" by simp
  from inv_Maze [OF i this] assms(2,3) pb CheckFloor_FloorIndex [OF bf]
  have "at2 (Maze g) (fst b) (snd b) = IsFloor OR IsBox"
    by (auto simp: cell_def)
  then have m: "at2 (Maze ?h) (fst b) (snd b) \<noteq> (IsFloor OR IsGoal OR IsBox)"
    by (simp add: IsFloor_def IsGoal_def IsBox_def)
  have v': "\<not> CheckFloor ?h (fst b - 1) (snd b) \<or> \<not> CheckFloor ?h (fst b + 1) (snd b)"
    unfolding cf by (rule v)
  have h': "\<not> CheckFloor ?h (fst b) (snd b - 1) \<or> \<not> CheckFloor ?h (fst b) (snd b + 1)"
    unfolding cf by (rule h)
  have box: "CheckFailed_box ?h b"
    by (rule CheckFailed_box_corner [OF v' h' m])
  have "b \<in> set (sorted_list_of_set (BoxPos ?h))" using fin assms(2) by simp
  from CheckFailed_boxes_mem [OF this box]
  have boxes: "CheckFailed_boxes ?h (sorted_list_of_set (BoxPos ?h))" .
  have "BoxPos g \<inter> GoalPos g \<subset> BoxPos g" using assms(2,3) by auto
  from psubset_card_mono [OF fin this] inv_Finished [OF i] c
  have "Finished ?h \<noteq> int (card (BoxPos0 ?h))" by simp
  with boxes have "CheckFailed ?h" by (simp add: CheckFailed_def)
  then show ?thesis using UpdateData_Failed_eq [of g0] by (simp add: g)
qed

definition game_corner_start :: "64 Game" where
  "game_corner_start =
     \<lparr>Succeeded = False, Failed = False, Directions = 11, Height = 3, Width = 3, FloorBits = 3,
      Finished = 0, State = 28, TimeElapsed = 0, PlayerPos0 = (1, 2), PlayerPos = (1, 2),
      BoxPos0 = {(1, 1)}, BoxPos = {(1, 1)}, GoalPos = {(2, 2)},
      Maze = [[0, 1, 1], [1, 5, 9], [1, 1, 3]],
      FloorIndex = [[- 1, 0, 1], [2, 3, 4], [5, 6, 7]], StateHistory = {}\<rparr>"

definition game_corner :: "64 Game" where
  "game_corner =
     \<lparr>Succeeded = False, Failed = True, Directions = 13, Height = 3, Width = 3, FloorBits = 3,
      Finished = 0, State = 19, TimeElapsed = 1, PlayerPos0 = (1, 2), PlayerPos = (1, 1),
      BoxPos0 = {(1, 1)}, BoxPos = {(1, 0)}, GoalPos = {(2, 2)},
      Maze = [[0, 1, 1], [5, 9, 1], [1, 1, 3]],
      FloorIndex = [[- 1, 0, 1], [2, 3, 4], [5, 6, 7]], StateHistory = {28}\<rparr>"

lemma Game_game_corner_start:
  "Game (''#..'' @ [CHR 0x0A] @ ''.&*'' @ [CHR 0x0A] @ ''..$'') = Inr game_corner_start"
  unfolding game_corner_start_def by code_simp

lemma Move_game_corner_start: "Move game_corner_start Left = (True, game_corner)"
  unfolding game_corner_start_def game_corner_def by code_simp

lemma reachable_game_corner: "reachable game_corner"
  by (rule reachable.move [OF reachable.construct [OF Game_game_corner_start] Move_game_corner_start])

theorem corner_box_failed_witness:
  "reachable game_corner \<and> (1, 0) \<in> BoxPos game_corner \<and> (1, 0) \<notin> GoalPos game_corner
   \<and> \<not> CheckFloor game_corner 0 0 \<and> \<not> CheckFloor game_corner 1 (- 1)
   \<and> Failed game_corner"
proof -
  have v: "\<not> CheckFloor game_corner 0 0" by (simp add: CheckFloor_def game_corner_def at2_def)
  have h: "\<not> CheckFloor game_corner 1 (- 1)" by (simp add: CheckFloor_def)
  have b: "(1, 0) \<in> BoxPos game_corner" "(1, 0) \<notin> GoalPos game_corner"
    by (simp_all add: game_corner_def)
  from corner_box_failed [OF reachable_game_corner b] v h have "Failed game_corner" by simp
  with reachable_game_corner b v h show ?thesis by simp
qed

text \<open>
  C2.  In every reachable game the set of boxes is finite and has as many elements as
  the initial set \<open>BoxPos0\<close>, which neither \<open>Restart\<close> nor \<open>Move\<close> changes.
  A move that reports a push takes the box at the player's destination and puts it
  on the next cell in the same direction, which held no box: no box is created,
  destroyed or merged.
\<close>

theorem box_conservation:
  assumes "reachable g"
  shows "finite (BoxPos g) \<and> card (BoxPos g) = card (BoxPos0 g)
     \<and> BoxPos0 (Restart g) = BoxPos0 g
     \<and> (\<forall>d pushed g'. Move g d = (pushed, g') \<longrightarrow> BoxPos0 g' = BoxPos0 g)
     \<and> (\<forall>d g'. Move g d = (True, g') \<longrightarrow>
           step_pos (PlayerPos g) d \<in> BoxPos g
           \<and> step_pos (step_pos (PlayerPos g) d) d \<notin> BoxPos g
           \<and> BoxPos g' = insert (step_pos (step_pos (PlayerPos g) d) d)
                            (BoxPos g - {step_pos (PlayerPos g) d}))"
proof -
  from reachable_inv [OF assms] have i: "inv g" .
  have mv: "step_pos (PlayerPos g) d \<in> BoxPos g
           \<and> step_pos (step_pos (PlayerPos g) d) d \<notin> BoxPos g
           \<and> BoxPos g' = insert (step_pos (step_pos (PlayerPos g) d) d)
                            (BoxPos g - {step_pos (PlayerPos g) d})"
    if "Move g d = (True, g')" for d g'
  proof (cases "Directions g AND d \<noteq> 0 \<and> d \<in> {Up, Left, Right, Down}")
    case False
    from DoMove_rejected [OF this] that show ?thesis by (simp add: Move_def)
  next
    case True
    then have legal: "Directions g AND d \<noteq> 0" and unit: "d \<in> {Up, Left, Right, Down}" by simp_all
    from that have q: "step_pos (PlayerPos g) d \<in> BoxPos g"
      unfolding Move_def DoMove_accepted [OF legal unit] by simp
    from that have "g' = UpdateData (g\<lparr>TimeElapsed := TimeElapsed g + 1,
                     StateHistory := insert (State g) (StateHistory g),
                     PlayerPos := step_pos (PlayerPos g) d,
                     BoxPos := (if step_pos (PlayerPos g) d \<in> BoxPos g
                                then insert (step_pos (step_pos (PlayerPos g) d) d)
                                       (BoxPos g - {step_pos (PlayerPos g) d})
                                else BoxPos g)\<rparr>)"
      unfolding Move_def DoMove_accepted [OF legal unit] by (elim Pair_inject) (rule sym)
    then have g': "BoxPos g' = insert (step_pos (step_pos (PlayerPos g) d) d)
                            (BoxPos g - {step_pos (PlayerPos g) d})"
      using q by (simp add: UpdateData_fields)
    from inv_legal [OF i unit] legal q show ?thesis
      using g' by (simp add: legal_move_def)
  qed
  have b0: "BoxPos0 g' = BoxPos0 g" if "Move g d = (pushed, g')" for d pushed g'
  proof (cases "Directions g AND d \<noteq> 0 \<and> d \<in> {Up, Left, Right, Down}")
    case False
    from DoMove_rejected [OF this] that show ?thesis by (simp add: Move_def)
  next
    case True
    then have legal: "Directions g AND d \<noteq> 0" and unit: "d \<in> {Up, Left, Right, Down}" by simp_all
    from that have "g' = UpdateData (g\<lparr>TimeElapsed := TimeElapsed g + 1,
                     StateHistory := insert (State g) (StateHistory g),
                     PlayerPos := step_pos (PlayerPos g) d,
                     BoxPos := (if step_pos (PlayerPos g) d \<in> BoxPos g
                                then insert (step_pos (step_pos (PlayerPos g) d) d)
                                       (BoxPos g - {step_pos (PlayerPos g) d})
                                else BoxPos g)\<rparr>)"
      unfolding Move_def DoMove_accepted [OF legal unit] by (elim Pair_inject) (rule sym)
    then show ?thesis by (simp add: UpdateData_fields)
  qed
  have r: "BoxPos0 (Restart g) = BoxPos0 g"
    by (simp add: Restart_def DoRestart_def UpdateData_fields)
  from i have "finite (BoxPos g)" "card (BoxPos g) = card (BoxPos0 g)"
    by (simp_all add: inv_def base_ok_def)
  with r mv b0 show ?thesis by blast
qed

theorem box_conservation_witness:
  "reachable game_row \<and> card (BoxPos game_row) = card (BoxPos0 game_row)
   \<and> Move game_row Right = (True, game_row_won)
   \<and> step_pos (PlayerPos game_row) Right \<in> BoxPos game_row
   \<and> step_pos (step_pos (PlayerPos game_row) Right) Right \<notin> BoxPos game_row
   \<and> BoxPos game_row_won = {(0, 2)} \<and> BoxPos0 game_row_won = BoxPos0 game_row
   \<and> card (BoxPos game_row_won) = card (BoxPos0 game_row_won)"
proof -
  from box_conservation [OF reachable_game_row] Move_game_row
  have "step_pos (PlayerPos game_row) Right \<in> BoxPos game_row
        \<and> step_pos (step_pos (PlayerPos game_row) Right) Right \<notin> BoxPos game_row
        \<and> BoxPos0 game_row_won = BoxPos0 game_row
        \<and> card (BoxPos game_row) = card (BoxPos0 game_row)"
    by blast
  moreover have "BoxPos game_row_won = {(0, 2)}" "card (BoxPos game_row_won) = card (BoxPos0 game_row_won)"
    by (simp_all add: game_row_won_def)
  ultimately show ?thesis using reachable_game_row Move_game_row by simp
qed

subsection \<open>The encoded state\<close>

text \<open>
  The spec's words for the key: fields of \<open>FloorBits\<close> bits, the player's floor index
  in the lowest, then the floor index of each box in ascending order of position.
  \<open>encode_fields width fs\<close> is the number whose successive \<open>width\<close>-bit fields are
  \<open>fs\<close>, lowest first.
\<close>

fun encode_fields :: "nat \<Rightarrow> nat list \<Rightarrow> nat" where
  "encode_fields width [] = 0"
| "encode_fields width (f # fs) = f + 2 ^ width * encode_fields width fs"

definition floor_index :: "('s::len) Game \<Rightarrow> Pos \<Rightarrow> nat" where
  "floor_index g p = nat (at2 (FloorIndex g) (fst p) (snd p))"

definition encoded_state :: "('s::len) Game \<Rightarrow> 's word" where
  "encoded_state g =
     word_of_nat (encode_fields (FloorBits g)
       (map (floor_index g) (PlayerPos g # sorted_list_of_set (BoxPos g))))"

lemma nat_field_join:
  assumes "a < 2 ^ n"
  shows "(a::nat) + 2 ^ n * e = a OR push_bit n e"
proof -
  have a: "take_bit n a = a" using assms by (simp add: take_bit_nat_eq_self)
  have "take_bit n a AND push_bit n e = 0" by (simp add: bit_eq_iff bit_simps)
  then have "take_bit n a + push_bit n e = take_bit n a OR push_bit n e"
    by (rule disjunctive_add_eq_or)
  then show ?thesis by (simp add: a push_bit_eq_mult mult.commute)
qed

lemma word_field_join:
  assumes "a < 2 ^ n"
  shows "(word_of_nat a :: 'a::len word) OR push_bit n (word_of_nat e) = word_of_nat (a + 2 ^ n * e)"
  unfolding nat_field_join [OF assms] by (simp add: of_nat_or_eq of_nat_push_bit)

lemma StateType_of_nat:
  assumes "0 \<le> v" "v < 15625"
  shows "(StateType_of v :: 'a::len word) = word_of_nat (nat v)"
  using assms by (simp add: StateType_of_def)

definition index_ok :: "('s::len) Game \<Rightarrow> Pos \<Rightarrow> bool" where
  "index_ok g p \<longleftrightarrow>
     0 \<le> at2 (FloorIndex g) (fst p) (snd p) \<and> at2 (FloorIndex g) (fst p) (snd p) < 15625 \<and>
     floor_index g p < 2 ^ FloorBits g"

lemma StateType_of_index:
  "index_ok g p \<Longrightarrow> (StateType_of (at2 (FloorIndex g) (fst p) (snd p)) :: 'a::len word) = word_of_nat (floor_index g p)"
  by (simp add: index_ok_def floor_index_def StateType_of_nat)

lemma UpdateData_boxes_state:
  fixes g :: "('s::len) Game"
  assumes "\<forall>b \<in> set bs. index_ok g b"
  shows "fst (snd (snd (UpdateData_boxes g bs (m, f, st, off)))) =
         st OR push_bit (FloorBits g * (off + 1))
                 (word_of_nat (encode_fields (FloorBits g) (map (floor_index g) bs)))"
  using assms
proof (induction bs arbitrary: m f st off)
  case Nil
  then show ?case by simp
next
  case (Cons b bs)
  from Cons.prems have b: "index_ok g b" and rest: "\<forall>b \<in> set bs. index_ok g b" by simp_all
  from b have lt: "floor_index g b < 2 ^ FloorBits g" by (simp add: index_ok_def)
  have step: "UpdateData_boxes g (b # bs) (m, f, st, off) =
      UpdateData_boxes g bs (or2 m b IsBox,
        (if at2 (or2 m b IsBox) (fst b) (snd b) = (IsFloor OR IsGoal OR IsBox) then f + 1 else f),
        st OR push_bit (FloorBits g * (off + 1)) (word_of_nat (floor_index g b)),
        off + 1)"
    by (simp add: Let_def StateType_of_index [OF b])
  have shift: "FloorBits g * (off + 1 + 1) = FloorBits g * (off + 1) + FloorBits g" by simp
  have join: "(word_of_nat (encode_fields (FloorBits g) (map (floor_index g) (b # bs))) :: 's word) =
      word_of_nat (floor_index g b)
      OR push_bit (FloorBits g) (word_of_nat (encode_fields (FloorBits g) (map (floor_index g) bs)))"
    by (simp only: list.map encode_fields.simps word_field_join [OF lt])
  show ?case
    unfolding step Cons.IH [OF rest] shift join
    by (simp only: push_bit_or push_bit_push_bit or.assoc)
qed


lemma inv_index_ok:
  assumes "static_ok g" "CheckFloor g (fst p) (snd p)"
  shows "index_ok g p"
proof -
  from assms have "at2 (FloorIndex g) (fst p) (snd p) < 2 ^ FloorBits g"
    and "at2 (FloorIndex g) (fst p) (snd p) < 15625"
    by (simp_all add: static_ok_def)
  moreover from CheckFloor_FloorIndex [OF assms(2)] have "0 \<le> at2 (FloorIndex g) (fst p) (snd p)" .
  ultimately show ?thesis
    by (simp add: index_ok_def floor_index_def nat_less_iff)
qed

lemma State_UpdateData:
  assumes "static_ok g" "base_ok g"
  shows "State (UpdateData g) = encoded_state g"
proof -
  let ?bs = "sorted_list_of_set (BoxPos g)"
  have fin: "finite (BoxPos g)" using assms(2) by (simp add: base_ok_def)
  have boxes: "\<forall>b \<in> set ?bs. index_ok g b"
    using assms fin by (auto simp: base_ok_def intro: inv_index_ok)
  have player: "index_ok g (PlayerPos g)"
    using assms by (auto simp: base_ok_def intro: inv_index_ok)
  then have lt: "floor_index g (PlayerPos g) < 2 ^ FloorBits g" by (simp add: index_ok_def)
  have "State (UpdateData g) =
      word_of_nat (floor_index g (PlayerPos g))
      OR push_bit (FloorBits g) (word_of_nat (encode_fields (FloorBits g) (map (floor_index g) ?bs)))"
    unfolding UpdateData_fields boxes_result_def UpdateData_boxes_state [OF boxes]
      StateType_of_index [OF player]
    by simp
  also have "\<dots> = encoded_state g"
    unfolding encoded_state_def by (simp only: list.map encode_fields.simps word_field_join [OF lt])
  finally show ?thesis .
qed

lemma encoded_state_cong:
  fixes g h :: "('s::len) Game"
  assumes "FloorIndex g = FloorIndex h" "FloorBits g = FloorBits h" "PlayerPos g = PlayerPos h"
    "BoxPos g = BoxPos h"
  shows "encoded_state g = encoded_state h"
proof -
  have "floor_index g = floor_index h" by (intro ext) (simp add: floor_index_def assms)
  then show ?thesis by (simp add: encoded_state_def assms)
qed

lemma inv_State:
  assumes "inv g"
  shows "State g = encoded_state g"
proof -
  from assms obtain g0 where g: "g = UpdateData g0" and b: "base_ok g" and st: "static_ok g"
    by (auto simp: inv_def)
  from b st have "base_ok g0" "static_ok g0"
    by (simp_all add: g base_ok_UpdateData static_ok_UpdateData)
  from State_UpdateData [OF this(2,1)] have "State g = encoded_state g0" by (simp add: g)
  also have "\<dots> = encoded_state g"
    by (rule encoded_state_cong) (simp_all add: g UpdateData_fields)
  finally show ?thesis .
qed

lemma encode_fields_bound:
  assumes "\<forall>f \<in> set fs. f < 2 ^ w"
  shows "encode_fields w fs < 2 ^ (w * length fs)"
  using assms
proof (induction fs)
  case Nil
  then show ?case by simp
next
  case (Cons f fs)
  then have f: "f < 2 ^ w" and e: "encode_fields w fs < 2 ^ (w * length fs)" by simp_all
  from e have "encode_fields w fs + 1 \<le> 2 ^ (w * length fs)" by simp
  then have "2 ^ w * (encode_fields w fs + 1) \<le> 2 ^ w * 2 ^ (w * length fs)"
    by (rule mult_left_mono) simp
  with f show ?case by (simp add: power_add)
qed

lemma Move_static:
  assumes "Move g d = (pushed, g')"
  shows "FloorIndex g' = FloorIndex g \<and> FloorBits g' = FloorBits g"
proof (cases "Directions g AND d \<noteq> 0 \<and> d \<in> {Up, Left, Right, Down}")
  case False
  from DoMove_rejected [OF this] assms show ?thesis by (simp add: Move_def)
next
  case True
  then have legal: "Directions g AND d \<noteq> 0" and unit: "d \<in> {Up, Left, Right, Down}" by simp_all
  from assms have "g' = UpdateData (g\<lparr>TimeElapsed := TimeElapsed g + 1,
                   StateHistory := insert (State g) (StateHistory g),
                   PlayerPos := step_pos (PlayerPos g) d,
                   BoxPos := (if step_pos (PlayerPos g) d \<in> BoxPos g
                              then insert (step_pos (step_pos (PlayerPos g) d) d)
                                     (BoxPos g - {step_pos (PlayerPos g) d})
                              else BoxPos g)\<rparr>)"
    unfolding Move_def DoMove_accepted [OF legal unit] by (elim Pair_inject) (rule sym)
  then show ?thesis by (simp add: UpdateData_fields)
qed

lemma Restart_static: "FloorIndex (Restart g) = FloorIndex g \<and> FloorBits (Restart g) = FloorBits g"
  by (simp add: Restart_def DoRestart_def UpdateData_fields)

lemma run_static: "FloorIndex (run g cs) = FloorIndex g \<and> FloorBits (run g cs) = FloorBits g"
proof (induction g cs rule: run.induct)
  case (1 g)
  show ?case by simp
next
  case (2 g d cs)
  from Move_static [of g d "fst (Move g d)" "snd (Move g d)"] 2 show ?case by simp
next
  case (3 g cs)
  with Restart_static [of g] show ?case by simp
qed

lemma reachable_run: "reachable g \<Longrightarrow> reachable (run g cs)"
proof (induction g cs rule: run.induct)
  case (1 g)
  then show ?case by simp
next
  case (2 g d cs)
  from reachable.move [OF 2(2), of d "fst (Move g d)" "snd (Move g d)"]
  have "reachable (snd (Move g d))" by simp
  from 2(1) [OF this] show ?case by simp
next
  case (3 g cs)
  from 3(1) [OF reachable.restart [OF 3(2)]] show ?case by simp
qed

text \<open>
  C3.  After any history of calls on a successfully constructed game, the encoded
  state is the key the spec describes: the player's floor index in the low-order
  field and the boxes' floor indices in the successive higher fields, in ascending
  order of position.  Every index fits its field and the fields fit the key, so the
  value of the key is exactly that number.  Two histories that end with the same
  player cell and the same set of box cells end with the same encoded state.
\<close>

theorem encoded_state_canonical:
  assumes "Game maze = Inr g0"
  shows "State (run g0 cs) = encoded_state (run g0 cs)
     \<and> unat (State (run g0 cs)) =
         encode_fields (FloorBits g0)
           (map (floor_index g0) (PlayerPos (run g0 cs) # sorted_list_of_set (BoxPos (run g0 cs))))
     \<and> list_all (\<lambda>p. floor_index g0 p < 2 ^ FloorBits g0)
         (PlayerPos (run g0 cs) # sorted_list_of_set (BoxPos (run g0 cs)))
     \<and> (PlayerPos (run g0 cs) = PlayerPos (run g0 cs') \<and> BoxPos (run g0 cs) = BoxPos (run g0 cs')
          \<longrightarrow> State (run g0 cs) = State (run g0 cs'))"
proof -
  have r: "reachable (run g0 h)" for h
    by (rule reachable_run [OF reachable.construct [OF assms]])
  note i = reachable_inv [OF r]
  let ?g = "run g0 cs"
  let ?ps = "PlayerPos ?g # sorted_list_of_set (BoxPos ?g)"
  have fi: "floor_index ?g = floor_index g0"
    by (intro ext) (simp add: floor_index_def run_static)
  from i [of cs] have st: "static_ok ?g" and b: "base_ok ?g"
    and c: "card (BoxPos ?g) = card (BoxPos0 ?g)" by (simp_all add: inv_def)
  have fin: "finite (BoxPos ?g)" using b by (simp add: base_ok_def)
  have ok: "\<forall>p \<in> set ?ps. index_ok ?g p"
    using st b fin by (auto simp: base_ok_def intro: inv_index_ok)
  then have small: "\<forall>f \<in> set (map (floor_index g0) ?ps). f < 2 ^ FloorBits g0"
    by (auto simp: index_ok_def fi [symmetric] run_static)
  have s1: "State ?g = encoded_state ?g" by (rule inv_State [OF i])
  have len: "length (map (floor_index g0) ?ps) = card (BoxPos0 ?g) + 1"
    using fin c by simp
  from st have "FloorBits g0 * (card (BoxPos0 ?g) + 1) \<le> LENGTH('a)"
    by (simp add: static_ok_def run_static)
  then have "(2::nat) ^ (FloorBits g0 * length (map (floor_index g0) ?ps)) \<le> 2 ^ LENGTH('a)"
    unfolding len by (intro power_increasing) simp_all
  with encode_fields_bound [OF small]
  have lt: "encode_fields (FloorBits g0) (map (floor_index g0) ?ps) < 2 ^ LENGTH('a)"
    by (rule less_le_trans)
  have s2: "unat (State ?g) = encode_fields (FloorBits g0) (map (floor_index g0) ?ps)"
    unfolding s1 encoded_state_def fi run_static [THEN conjunct2] unat_of_nat
    using lt by simp
  have s3: "list_all (\<lambda>p. floor_index g0 p < 2 ^ FloorBits g0) ?ps"
    using small by (simp add: list_all_iff)
  have s4: "State ?g = State (run g0 cs')"
    if "PlayerPos ?g = PlayerPos (run g0 cs')" "BoxPos ?g = BoxPos (run g0 cs')"
    unfolding inv_State [OF i]
    by (rule encoded_state_cong) (simp_all add: run_static that)
  from s1 s2 s3 s4 show ?thesis by blast
qed


lemma run_game_row_right: "run game_row [MoveCall Right] = game_row_won"
  by (simp add: Move_game_row)

lemma run_game_row_up_right: "run game_row [MoveCall Up, MoveCall Right] = game_row_won"
proof -
  have "Move game_row Up = (False, game_row)"
    by (simp add: Move_def DoMove_def game_row_def Up_def)
  then show ?thesis by (simp add: Move_game_row)
qed

theorem encoded_state_canonical_witness:
  "Game ''*&$'' = Inr game_row
   \<and> PlayerPos (run game_row [MoveCall Right]) = PlayerPos (run game_row [MoveCall Up, MoveCall Right])
   \<and> BoxPos (run game_row [MoveCall Right]) = BoxPos (run game_row [MoveCall Up, MoveCall Right])
   \<and> State (run game_row [MoveCall Right]) = State (run game_row [MoveCall Up, MoveCall Right])
   \<and> State (run game_row [MoveCall Right]) = encoded_state (run game_row [MoveCall Right])
   \<and> unat (State (run game_row [MoveCall Right])) = encode_fields 2 [1, 2]
   \<and> encode_fields 2 [1, 2] = 9"
proof -
  note t = encoded_state_canonical [OF Game_game_row, of "[MoveCall Right]" "[MoveCall Up, MoveCall Right]",
      unfolded run_game_row_right run_game_row_up_right]
  have v: "FloorBits game_row = 2" "PlayerPos game_row_won = (0, 1)"
    "sorted_list_of_set (BoxPos game_row_won) = [(0, 2)]"
    "floor_index game_row (0, 1) = 1" "floor_index game_row (0, 2) = 2"
    by (simp_all add: game_row_def game_row_won_def floor_index_def at2_def)
  have "State game_row_won = encoded_state game_row_won" by (rule t [THEN conjunct1])
  moreover from t [THEN conjunct2, THEN conjunct1]
  have "unat (State game_row_won) = encode_fields 2 [1, 2]" by (simp add: v)
  ultimately show ?thesis
    unfolding run_game_row_right run_game_row_up_right
    using Game_game_row by simp
qed

subsection \<open>Construction errors\<close>

text \<open>
  The conditions in the spec's words, on the maze text after the leading and trailing
  newlines are removed.  The symbols are those of the maze format: \<open>*\<close> and \<open>+\<close> hold the
  player, \<open>&\<close> and \<open>@\<close> a box, \<open>$\<close>, \<open>+\<close> and \<open>@\<close> a goal, and these and \<open>.\<close> are the floor.
\<close>

definition player_symbol :: "char \<Rightarrow> bool" where
  "player_symbol c \<longleftrightarrow> c = CHR ''*'' \<or> c = CHR ''+''"

definition box_symbol :: "char \<Rightarrow> bool" where
  "box_symbol c \<longleftrightarrow> c = CHR ''&'' \<or> c = CHR ''@''"

definition goal_symbol :: "char \<Rightarrow> bool" where
  "goal_symbol c \<longleftrightarrow> c = CHR ''$'' \<or> c = CHR ''+'' \<or> c = CHR ''@''"

definition floor_symbol :: "char \<Rightarrow> bool" where
  "floor_symbol c \<longleftrightarrow> c = CHR ''.'' \<or> player_symbol c \<or> box_symbol c \<or> goal_symbol c"

definition player_count :: "string \<Rightarrow> nat" where
  "player_count text = length (filter player_symbol text)"

definition box_count :: "string \<Rightarrow> nat" where
  "box_count text = length (filter box_symbol text)"

definition goal_count :: "string \<Rightarrow> nat" where
  "goal_count text = length (filter goal_symbol text)"

definition floor_count :: "string \<Rightarrow> nat" where
  "floor_count text = length (filter floor_symbol text)"

text \<open>
  The rows of the maze are the pieces of the text between newlines.  A carriage return
  takes no cell (the constructor skips it), every other character of a row is one cell.
\<close>

fun rows :: "string \<Rightarrow> string list" where
  "rows [] = [[]]"
| "rows (c # cs) =
     (if c = CHR 0x0A then [] # rows cs else (c # hd (rows cs)) # tl (rows cs))"

definition cells :: "string \<Rightarrow> string" where
  "cells row = filter (\<lambda>c. c \<noteq> CHR 0x0D) row"

definition row_count :: "string \<Rightarrow> nat" where
  "row_count text = length (rows text)"

definition column_count :: "string \<Rightarrow> nat" where
  "column_count text = fold max (map (\<lambda>row. length (cells row)) (rows text)) 0"

text \<open>
  The enumerated conditions.  \<open>StateBits\<close> is the capacity of the key; the width of a
  field is what the source's loop computes from the number of floor cells, which is
  the least \<open>k\<close> with \<open>floor_count \<le> 2 ^ k\<close> (lemma \<open>FloorBits_loop_least\<close> below).
\<close>

definition construction_fails :: "nat \<Rightarrow> string \<Rightarrow> bool" where
  "construction_fails StateBits text \<longleftrightarrow>
     row_count text > 125 \<or> column_count text > 125 \<or>
     player_count text > 1 \<or> player_count text = 0 \<or>
     box_count text = 0 \<or> box_count text > goal_count text \<or>
     FloorBits_loop (floor_count text - 1) 0 * (box_count text + 1) > StateBits"

lemma rows_nonempty: "rows cs \<noteq> []"
  by (induction cs) simp_all

lemma rows_length: "length (rows cs) = length (filter (\<lambda>c. c = CHR 0x0A) cs) + 1"
proof (induction cs)
  case Nil
  show ?case by simp
next
  case (Cons c cs)
  have "length (tl (rows cs)) + 1 = length (rows cs)"
    using rows_nonempty [of cs] by (cases "rows cs") simp_all
  with Cons show ?case by simp
qed

lemma fold_max_gt: "fold max xs (a::nat) > n \<longleftrightarrow> a > n \<or> (\<exists>x \<in> set xs. x > n)"
  by (induction xs arbitrary: a) auto

lemma column_count_gt:
  "column_count text > n \<longleftrightarrow> (\<exists>row \<in> set (rows text). length (cells row) > n)"
  by (auto simp: column_count_def fold_max_gt)

text \<open>
  What the parsing loop has left to find when it stands at \<open>(line, col)\<close> with the
  characters \<open>cs\<close> to come: a row too many, a cell too many in some row, a second player.
\<close>

definition has_player :: "('s::len) Game \<Rightarrow> bool" where
  "has_player g \<longleftrightarrow> fst (PlayerPos0 g) + snd (PlayerPos0 g) \<ge> 0"

definition wide :: "int \<Rightarrow> string \<Rightarrow> bool" where
  "wide col cs \<longleftrightarrow>
     col + 1 + int (length (cells (hd (rows cs)))) > 125 \<or>
     (\<exists>row \<in> set (tl (rows cs)). length (cells row) > 125)"

definition tall :: "int \<Rightarrow> string \<Rightarrow> bool" where
  "tall line cs \<longleftrightarrow> line + int (length (filter (\<lambda>c. c = CHR 0x0A) cs)) \<ge> 125"

definition crowded :: "bool \<Rightarrow> string \<Rightarrow> bool" where
  "crowded pl cs \<longleftrightarrow> (if pl then 1 else 0) + player_count cs > 1"

lemma Game_cell_player:
  fixes g :: "('s::len) Game"
  assumes "0 \<le> line" "0 \<le> col"
  shows "(player_symbol c \<and> has_player g \<and> isl (Game_cell c (g, fq, line, col))) \<or>
         (\<not> (player_symbol c \<and> has_player g) \<and>
          (\<exists>g' fq'. Game_cell c (g, fq, line, col) = Inr (g', fq', line, col) \<and>
                     has_player g' = (has_player g \<or> player_symbol c)))"
  using assms by (auto simp: Game_cell_def player_symbol_def has_player_def)

lemma wide_newline:
  assumes "col \<le> 124"
  shows "wide col (CHR 0x0A # cs) = wide (- 1) cs"
proof -
  obtain r rs where r: "rows cs = r # rs" using rows_nonempty [of cs] by (cases "rows cs") auto
  show ?thesis using assms by (auto simp: wide_def r cells_def)
qed

lemma Game_chars_error:
  fixes g :: "('s::len) Game"
  assumes "0 \<le> line" "line \<le> 124" "- 1 \<le> col" "col \<le> 124"
  shows "isl (Game_chars cs (g, fq, line, col)) \<longleftrightarrow>
           tall line cs \<or> wide col cs \<or> crowded (has_player g) cs"
  using assms
proof (induction cs arbitrary: g fq line col)
  case Nil
  then show ?case by (simp add: tall_def wide_def crowded_def cells_def player_count_def)
next
  case (Cons c cs)
  note b = Cons.prems
  consider (cr) "c = CHR 0x0D" | (nl) "c = CHR 0x0A" | (cell) "c \<noteq> CHR 0x0D" "c \<noteq> CHR 0x0A" by auto
  then show ?case
  proof cases
    case cr
    have "isl (Game_chars (c # cs) (g, fq, line, col)) = isl (Game_chars cs (g, fq, line, col))"
      using cr by (simp add: Game_char_def)
    also note Cons.IH [OF b]
    also have "tall line cs = tall line (c # cs)" using cr by (simp add: tall_def)
    also have "wide col cs = wide col (c # cs)" using cr by (simp add: wide_def cells_def)
    also have "crowded (has_player g) cs = crowded (has_player g) (c # cs)"
      using cr by (simp add: crowded_def player_count_def player_symbol_def)
    finally show ?thesis .
  next
    case nl
    have cr: "crowded (has_player g) (c # cs) = crowded (has_player g) cs"
      using nl by (simp add: crowded_def player_count_def player_symbol_def)
    show ?thesis
    proof (cases "line + 1 \<ge> 125")
      case True
      then have "isl (Game_chars (c # cs) (g, fq, line, col))" using nl by (simp add: Game_char_def)
      moreover have "tall line (c # cs)" using True nl by (simp add: tall_def)
      ultimately show ?thesis by simp
    next
      case False
      define g' where "g' = (if line + 1 \<ge> Height g then g\<lparr>Height := line + 1 + 1\<rparr> else g)"
      have hp: "has_player g' = has_player g" by (simp add: g'_def has_player_def)
      have "isl (Game_chars (c # cs) (g, fq, line, col)) = isl (Game_chars cs (g', fq, line + 1, - 1))"
        using nl False by (simp add: Game_char_def g'_def)
      also have "\<dots> = (tall (line + 1) cs \<or> wide (- 1) cs \<or> crowded (has_player g') cs)"
        by (rule Cons.IH) (use b False in simp_all)
      also have "tall (line + 1) cs = tall line (c # cs)" using nl by (simp add: tall_def)
      also have "wide (- 1) cs = wide col (c # cs)" using wide_newline [OF b(4)] nl by simp
      finally show ?thesis by (simp add: hp cr)
    qed
  next
    case cell
    have t: "tall line (c # cs) = tall line cs" using cell by (simp add: tall_def)
    have w: "wide col (c # cs) = wide (col + 1) cs" using cell by (simp add: wide_def cells_def)
    have cr: "crowded pl (c # cs) \<longleftrightarrow> crowded (pl \<or> player_symbol c) cs \<or> (pl \<and> player_symbol c)" for pl
      by (auto simp: crowded_def player_count_def)
    show ?thesis
    proof (cases "col + 1 \<ge> 125")
      case True
      then have "isl (Game_chars (c # cs) (g, fq, line, col))" using cell by (simp add: Game_char_def)
      moreover have "wide col (c # cs)" using True cell by (simp add: wide_def cells_def)
      ultimately show ?thesis by simp
    next
      case False
      define gw where "gw = (if col + 1 \<ge> Width g then g\<lparr>Width := col + 1 + 1\<rparr> else g)"
      have hp: "has_player gw = has_player g" by (simp add: gw_def has_player_def)
      have step: "Game_char c (g, fq, line, col) = Game_cell c (gw, fq, line, col + 1)"
        using cell False by (simp add: Game_char_def gw_def)
      have pos: "0 \<le> line" "0 \<le> col + 1" using b by simp_all
      from Game_cell_player [OF pos, of c gw fq]
      show ?thesis
      proof (elim disjE conjE exE)
        assume p: "player_symbol c" "has_player gw" and i: "isl (Game_cell c (gw, fq, line, col + 1))"
        from i obtain e where "Game_cell c (gw, fq, line, col + 1) = Inl e" by (auto simp: isl_def)
        then have "isl (Game_chars (c # cs) (g, fq, line, col))" using step by simp
        moreover have "crowded (has_player g) (c # cs)" using cr [where pl = "has_player g"] p hp by simp
        ultimately show ?thesis by simp
      next
        fix g' fq'
        assume n: "\<not> (player_symbol c \<and> has_player gw)"
          and r: "Game_cell c (gw, fq, line, col + 1) = Inr (g', fq', line, col + 1)"
          and h: "has_player g' = (has_player gw \<or> player_symbol c)"
        have "isl (Game_chars (c # cs) (g, fq, line, col)) = isl (Game_chars cs (g', fq', line, col + 1))"
          using step r by simp
        also have "\<dots> = (tall line cs \<or> wide (col + 1) cs \<or> crowded (has_player g') cs)"
          by (rule Cons.IH) (use b False in simp_all)
        finally show ?thesis using n h hp cr [where pl = "has_player g"] t w by auto
      qed
    qed
  qed
qed


lemma Game_char_counts:
  fixes g :: "('s::len) Game"
  assumes "parse_inv (g, fq, line, col)" "Game_char c (g, fq, line, col) = Inr (g', fq', line', col')"
  shows "length fq' = length fq + (if floor_symbol c then 1 else 0)"
    and "card (BoxPos0 g') = card (BoxPos0 g) + (if box_symbol c then 1 else 0)"
    and "card (GoalPos g') = card (GoalPos g) + (if goal_symbol c then 1 else 0)"
    and "has_player g' = (has_player g \<or> player_symbol c)"
proof -
  from assms(1) have gp: "grid_part (Height g) (Width g) fq line col" and sp: "sets_part g fq"
    by (simp_all add: parse_inv_def)
  from grid_fresh(1) [OF gp] sp have
    fr: "(line, col + 1) \<notin> BoxPos0 g" "(line, col + 1) \<notin> GoalPos g"
    by (auto simp: sets_part_def)
  from sp have fin: "finite (BoxPos0 g)" "finite (GoalPos g)"
    by (auto simp: sets_part_def intro: finite_subset)
  from gp have pos: "0 \<le> line" "- 1 \<le> col" by (simp_all add: grid_part_def)
  consider (cr) "c = CHR 0x0D" | (nl) "c = CHR 0x0A"
    | (dot) "c = CHR ''.''" | (star) "c = CHR ''*''" | (dollar) "c = CHR ''$''"
    | (amp) "c = CHR ''&''" | (plus) "c = CHR ''+''" | (at) "c = CHR ''@''"
    | (other) "c \<notin> {CHR 0x0D, CHR 0x0A, CHR ''.'', CHR ''*'', CHR ''$'', CHR ''&'', CHR ''+'', CHR ''@''}"
    by auto
  then have "length fq' = length fq + (if floor_symbol c then 1 else 0) \<and>
     card (BoxPos0 g') = card (BoxPos0 g) + (if box_symbol c then 1 else 0) \<and>
     card (GoalPos g') = card (GoalPos g) + (if goal_symbol c then 1 else 0) \<and>
     has_player g' = (has_player g \<or> player_symbol c)"
  proof cases
    case cr
    with assms(2) show ?thesis
      by (auto simp: Game_char_def floor_symbol_def box_symbol_def goal_symbol_def player_symbol_def)
  next
    case nl
    with assms(2) show ?thesis
      by (auto simp: Game_char_def Let_def has_player_def floor_symbol_def box_symbol_def goal_symbol_def
          player_symbol_def split: if_splits)
  next
    case dot
    with assms(2) show ?thesis
      by (auto simp: Game_char_def Game_cell_def Let_def has_player_def floor_symbol_def box_symbol_def
          goal_symbol_def player_symbol_def split: if_splits)
  next
    case star
    with assms(2) pos show ?thesis
      by (auto simp: Game_char_def Game_cell_def Let_def has_player_def floor_symbol_def box_symbol_def
          goal_symbol_def player_symbol_def split: if_splits)
  next
    case dollar
    with assms(2) fr fin show ?thesis
      by (auto simp: Game_char_def Game_cell_def Let_def has_player_def floor_symbol_def box_symbol_def
          goal_symbol_def player_symbol_def split: if_splits)
  next
    case amp
    with assms(2) fr fin show ?thesis
      by (auto simp: Game_char_def Game_cell_def Let_def has_player_def floor_symbol_def box_symbol_def
          goal_symbol_def player_symbol_def split: if_splits)
  next
    case plus
    with assms(2) fr fin pos show ?thesis
      by (auto simp: Game_char_def Game_cell_def Let_def has_player_def floor_symbol_def box_symbol_def
          goal_symbol_def player_symbol_def split: if_splits)
  next
    case at
    with assms(2) fr fin show ?thesis
      by (auto simp: Game_char_def Game_cell_def Let_def has_player_def floor_symbol_def box_symbol_def
          goal_symbol_def player_symbol_def split: if_splits)
  next
    case other
    with assms(2) show ?thesis
      by (auto simp: Game_char_def Game_cell_def Let_def has_player_def floor_symbol_def box_symbol_def
          goal_symbol_def player_symbol_def split: if_splits)
  qed
  then show "length fq' = length fq + (if floor_symbol c then 1 else 0)"
    and "card (BoxPos0 g') = card (BoxPos0 g) + (if box_symbol c then 1 else 0)"
    and "card (GoalPos g') = card (GoalPos g) + (if goal_symbol c then 1 else 0)"
    and "has_player g' = (has_player g \<or> player_symbol c)"
    by simp_all
qed

lemma Game_chars_counts:
  fixes g :: "('s::len) Game"
  assumes "parse_inv (g, fq, line, col)" "Game_chars cs (g, fq, line, col) = Inr (g', fq', line', col')"
  shows "length fq' = length fq + floor_count cs \<and>
     card (BoxPos0 g') = card (BoxPos0 g) + box_count cs \<and>
     card (GoalPos g') = card (GoalPos g) + goal_count cs \<and>
     has_player g' = (has_player g \<or> player_count cs > 0)"
  using assms
proof (induction cs arbitrary: g fq line col)
  case Nil
  then show ?case by (simp add: floor_count_def box_count_def goal_count_def player_count_def)
next
  case (Cons c cs)
  from Cons.prems(2) obtain g1 fq1 line1 col1 where
    a: "Game_char c (g, fq, line, col) = Inr (g1, fq1, line1, col1)"
    and b: "Game_chars cs (g1, fq1, line1, col1) = Inr (g', fq', line', col')"
    by (auto split: sum.splits)
  note c1 = Game_char_counts [OF Cons.prems(1) a]
  note c2 = Cons.IH [OF parse_inv_char [OF Cons.prems(1) a] b]
  show ?case
    using c1 c2 by (simp add: floor_count_def box_count_def goal_count_def player_count_def)
qed


lemma tall_rows: "tall 0 text \<longleftrightarrow> row_count text > 125"
  by (auto simp: tall_def row_count_def rows_length)

lemma wide_columns: "wide (- 1) text \<longleftrightarrow> column_count text > 125"
proof -
  obtain r rs where r: "rows text = r # rs" using rows_nonempty [of "text"] by (cases "rows text") auto
  show ?thesis by (auto simp: wide_def column_count_gt r)
qed

lemma parse_inv_player:
  fixes g :: "('s::len) Game"
  assumes "parse_inv (g, fq, line, col)"
  shows "fst (PlayerPos0 g) + snd (PlayerPos0 g) = - 2 \<longleftrightarrow> \<not> has_player g"
proof -
  from assms have "PlayerPos0 g = (- 1, - 1) \<or> (0 \<le> fst (PlayerPos0 g) \<and> 0 \<le> snd (PlayerPos0 g))"
    by (auto simp: parse_inv_def sets_part_def grid_part_def)
  then show ?thesis by (auto simp: has_player_def)
qed

lemma Game_isl:
  "isl (Game maze :: Error + ('s::len) Game) \<longleftrightarrow> construction_fails LENGTH('s) (trim_newlines maze)"
proof -
  define mz where "mz = trim_newlines maze"
  define init :: "'s Game" where "init = Game_empty\<lparr>PlayerPos0 := (- 1, - 1), Height := 1, Width := 0\<rparr>"
  have hp: "\<not> has_player init" by (simp add: init_def has_player_def)
  have parse: "isl (Game_chars mz (init, [], 0, - 1)) \<longleftrightarrow>
      row_count mz > 125 \<or> column_count mz > 125 \<or> player_count mz > 1"
    using Game_chars_error [of 0 "- 1" mz init "[]"] hp
    by (simp add: tall_rows wide_columns crowded_def)
  show ?thesis
  proof (cases "Game_chars mz (init, [], 0, - 1)")
    case (Inl e)
    then have "isl (Game maze :: Error + 's Game)" by (simp add: Game_def mz_def init_def)
    moreover from Inl parse have "construction_fails LENGTH('s) mz"
      by (auto simp: construction_fails_def)
    ultimately show ?thesis by (simp add: mz_def)
  next
    case (Inr st)
    obtain g fq line col where st: "st = (g, fq, line, col)" by (cases st) auto
    note r = Inr [unfolded st]
    have pi: "parse_inv (init, [], 0, - 1)" unfolding init_def by (rule parse_inv_init)
    from Game_chars_counts [OF pi r] hp have cnt:
      "length fq = floor_count mz" "card (BoxPos0 g) = box_count mz"
      "card (GoalPos g) = goal_count mz" "has_player g = (player_count mz > 0)"
      by (simp_all add: init_def Game_empty_def)
    note pe = parse_inv_chars [OF pi r]
    from pe have fin: "finite (BoxPos0 g)"
      by (auto simp: parse_inv_def sets_part_def intro: finite_subset)
    have np: "fst (PlayerPos0 g) + snd (PlayerPos0 g) = - 2 \<longleftrightarrow> player_count mz = 0"
      using parse_inv_player [OF pe] cnt(4) by simp
    have nb: "BoxPos0 g = {} \<longleftrightarrow> box_count mz = 0"
      using fin cnt(2) by auto
    from r parse have ok: "\<not> row_count mz > 125" "\<not> column_count mz > 125" "\<not> player_count mz > 1"
      by auto
    have "isl (Game maze :: Error + 's Game) \<longleftrightarrow>
        player_count mz = 0 \<or> box_count mz = 0 \<or> box_count mz > goal_count mz \<or>
        FloorBits_loop (floor_count mz - 1) 0 * (box_count mz + 1) > LENGTH('s)"
      using r np nb cnt(1-3)
      by (simp add: Game_def mz_def [symmetric] init_def [symmetric] Let_def)
    with ok show ?thesis by (auto simp: construction_fails_def mz_def)
  qed
qed


lemma FloorBits_loop_lower: "0 < n \<Longrightarrow> 2 ^ (FloorBits_loop n 0 - 1) \<le> n"
proof (induction n rule: less_induct)
  case (less n)
  have eq: "FloorBits_loop n 0 = 1 + FloorBits_loop (n div 2) 0"
    using less.prems FloorBits_loop_add [of "n div 2" 1] by (simp add: FloorBits_loop.simps [of n])
  show ?case
  proof (cases "n div 2 = 0")
    case True
    then show ?thesis using less.prems eq by (simp add: FloorBits_loop.simps [of 0])
  next
    case False
    then have lt: "n div 2 < n" and pos: "0 < n div 2" by simp_all
    from less.IH [OF lt pos] have le: "2 ^ (FloorBits_loop (n div 2) 0 - 1) \<le> n div 2" .
    have "0 < FloorBits_loop (n div 2) 0"
      using pos FloorBits_loop_add [of "n div 2 div 2" 1] by (simp add: FloorBits_loop.simps [of "n div 2"])
    then have "(2::nat) ^ FloorBits_loop (n div 2) 0 = 2 * 2 ^ (FloorBits_loop (n div 2) 0 - 1)"
      by (cases "FloorBits_loop (n div 2) 0") simp_all
    with le have "(2::nat) ^ FloorBits_loop (n div 2) 0 \<le> n" by linarith
    then show ?thesis by (simp add: eq)
  qed
qed

lemma FloorBits_loop_least:
  assumes "0 < n"
  shows "n \<le> 2 ^ FloorBits_loop (n - 1) 0"
    and "n \<le> 2 ^ k \<Longrightarrow> FloorBits_loop (n - 1) 0 \<le> k"
proof -
  from FloorBits_loop_bound [of "n - 1"] assms show "n \<le> 2 ^ FloorBits_loop (n - 1) 0" by simp
next
  assume k: "n \<le> 2 ^ k"
  show "FloorBits_loop (n - 1) 0 \<le> k"
  proof (cases "n - 1 = 0")
    case True
    then show ?thesis by (simp add: FloorBits_loop.simps [of 0])
  next
    case False
    then have "(2::nat) ^ (FloorBits_loop (n - 1) 0 - 1) \<le> n - 1" by (intro FloorBits_loop_lower) simp
    also have "\<dots> < 2 ^ k" using k assms by simp
    finally have "FloorBits_loop (n - 1) 0 - 1 < k" by simp
    then show ?thesis by simp
  qed
qed

text \<open>
  C5.  The constructor returns an error exactly when one of the enumerated conditions
  holds of the maze text: more than 125 rows, more than 125 cells in a row, more than
  one player symbol, no player symbol, no box symbol, more box symbols than goal
  symbols, or \<open>FloorBits * (box_count + 1)\<close> above the key capacity \<open>StateBits\<close>.
  \<open>Move\<close> and \<open>Restart\<close> have no \<open>throw\<close> statement and the recursions they call
  terminate on every input, so they are embedded as total functions without an error
  alternative; after a successful construction and any history of calls, \<open>Move\<close> with
  any direction value and \<open>Restart\<close> return a game whose player and boxes stand on
  floor cells inside the grid, which is what keeps the unchecked vector accesses of
  the next call in range.
\<close>

theorem construction_errors:
  fixes g0 :: "('s::len) Game"
  shows "(isl (Game maze :: Error + 's Game) \<longleftrightarrow> construction_fails LENGTH('s) (trim_newlines maze)) \<and>
         (Game maze = Inr g0 \<longrightarrow>
            (\<exists>pushed g'. Move (run g0 cs) d = (pushed, g') \<and> base_ok g') \<and>
            base_ok (Restart (run g0 cs)))"
proof (intro conjI impI)
  show "isl (Game maze :: Error + 's Game) \<longleftrightarrow> construction_fails LENGTH('s) (trim_newlines maze)"
    by (rule Game_isl)
next
  assume "Game maze = Inr g0"
  then have r: "reachable (run g0 cs)" by (intro reachable_run reachable.construct)
  from reachable.move [OF r, of d "fst (Move (run g0 cs) d)" "snd (Move (run g0 cs) d)"]
  have "inv (snd (Move (run g0 cs) d))" by (intro reachable_inv) simp
  then have "Move (run g0 cs) d = (fst (Move (run g0 cs) d), snd (Move (run g0 cs) d)) \<and>
      base_ok (snd (Move (run g0 cs) d))"
    by (simp add: inv_def)
  then show "\<exists>pushed g'. Move (run g0 cs) d = (pushed, g') \<and> base_ok g'" by blast
next
  assume "Game maze = Inr g0"
  then have r: "reachable (run g0 cs)" by (intro reachable_run reachable.construct)
  from reachable_inv [OF reachable.restart [OF r]]
  show "base_ok (Restart (run g0 cs))" by (simp add: inv_def)
qed

theorem construction_errors_witness:
  "isl (Game ''*&'' :: Error + 64 Game) \<and> construction_fails 64 (trim_newlines ''*&'') \<and>
   \<not> construction_fails 64 (trim_newlines ''*&$'') \<and>
   (\<exists>pushed g'. Move (run game_row [MoveCall Right]) Up = (pushed, g') \<and> base_ok g') \<and>
   base_ok (Restart (run game_row [MoveCall Right]))"
proof -
  have f: "construction_fails 64 (trim_newlines ''*&'')" by code_simp
  note a = construction_errors [where 's = 64 and maze = "''*&''", THEN conjunct1]
  note b = construction_errors [of "''*&$''" game_row "[MoveCall Right]" Up]
  from a f have "isl (Game ''*&'' :: Error + 64 Game)" by simp
  moreover from b Game_game_row have "\<not> construction_fails 64 (trim_newlines ''*&$'')" by simp
  moreover from b Game_game_row have
    "(\<exists>pushed g'. Move (run game_row [MoveCall Right]) Up = (pushed, g') \<and> base_ok g') \<and>
     base_ok (Restart (run game_row [MoveCall Right]))"
    by blast
  ultimately show ?thesis using f by blast
qed

subsection \<open>The bootstrap value\<close>

text \<open>After an accepted move the step back is legal: the cell the player left is floor and holds no box.\<close>

lemma step_back_legal:
  assumes i: "inv g" and legal: "Directions g AND d \<noteq> 0" and unit: "d \<in> {Up, Left, Right, Down}"
    and mv: "DoMove g d = (pushed, g')"
  shows "legal_directions (Directions g') \<noteq> []" and "BoxPos0 g' = BoxPos0 g"
proof -
  define b where "b = (if d = Up then Down else if d = Left then Right else if d = Right then Left else Up)"
  have bu: "b \<in> {Up, Left, Right, Down}" by (simp add: b_def)
  have bm: "Movement b = (- fst (Movement d), - snd (Movement d))"
    using unit by (auto simp: b_def Movement_def Up_def Left_def Right_def Down_def)
  let ?p = "PlayerPos g"
  let ?q = "step_pos ?p d"
  let ?r = "step_pos ?q d"
  let ?B = "if ?q \<in> BoxPos g then insert ?r (BoxPos g - {?q}) else BoxPos g"
  let ?g1 = "g\<lparr>TimeElapsed := TimeElapsed g + 1, StateHistory := insert (State g) (StateHistory g),
                PlayerPos := ?q, BoxPos := ?B\<rparr>"
  from mv have g': "g' = UpdateData ?g1"
    unfolding DoMove_accepted [OF legal unit] by (elim Pair_inject) (rule sym)
  have i': "inv g'" by (rule inv_DoMove [OF i mv])
  from i have b: "base_ok g" by (simp add: inv_def)
  have bk: "step_pos ?q b = ?p" by (simp add: step_pos_def bm)
  have ne: "?r \<noteq> ?p" using Movement_unit_nonzero [OF unit] by (auto simp: step_pos_def prod_eq_iff)
  have cf: "CheckFloor g' = CheckFloor g"
    unfolding g' CheckFloor_UpdateData by (rule CheckFloor_cong) simp_all
  have pp: "PlayerPos g' = ?q" and bp: "BoxPos g' = ?B" by (simp_all add: g' UpdateData_fields)
  from b have "CheckFloor g (fst ?p) (snd ?p)" and "?p \<notin> BoxPos g" by (simp_all add: base_ok_def)
  then have "legal_move g' b"
    unfolding legal_move_def pp bk cf bp using ne by auto
  with inv_legal [OF i' bu] have "Directions g' AND b \<noteq> 0" by simp
  with bu have "b \<in> set (legal_directions (Directions g'))" by (auto simp: legal_directions_def)
  then show "legal_directions (Directions g') \<noteq> []" by auto
  show "BoxPos0 g' = BoxPos0 g" by (simp add: g' UpdateData_fields)
qed


text \<open>A Q table whose only row, for the state after the push, holds a value far below the floor.\<close>

definition Q_low :: "64 QTable" where
  "Q_low = [9 \<mapsto> (0, - 5000, 0, 0)]"

text \<open>
  C6 (amended).  In a \<open>Train\<close> step on a reachable game that is neither succeeded nor
  failed, with a generator whose integer draws lie in the range asked for, some
  direction is legal after the move: the step back.  The bootstrap value is the
  larger of the floor \<open>- (retrace_penalty + failure_penalty + goal_reward * box count)\<close>,
  computed in the arithmetic \<open>rnd\<close> of \<open>RealType\<close>, and the maximum Q-value over the
  directions legal after the move: the loop starts its running maximum at the floor,
  so a maximum below the floor is replaced by the floor.  It is the value of \<open>max_Q\<close>,
  and whenever the update computed with it is a finite value \<open>v\<close>, \<open>Train\<close> stores \<open>v\<close>.
\<close>

theorem Train_bootstrap:
  assumes "reachable g" "\<not> Succeeded g" "\<not> Failed g"
    and ui: "\<forall>lo hi r. lo \<le> hi \<longrightarrow> lo \<le> fst (ui lo hi r) \<and> fst (ui lo hi r) \<le> hi"
    and fa: "FindAction ur ui rng eps g Q = (a, rng1)"
    and mv: "Move g a = (pushed, g')"
    and fl: "RealType_neg (RealType_add rnd (RealType_add rnd (Some rp) (Some fp))
               (RealType_mul rnd (Some gr) (rnd (of_nat (card (BoxPos0 g)))))) = Some x"
    and bs: "bootstrap = max x (Max (Get Q (State g') ` set (legal_directions (Directions g'))))"
    and val: "RealType_add rnd
                (RealType_mul rnd (RealType_sub rnd (rnd 1) (Some alpha)) (Some (Get Q (State g) a)))
                (RealType_mul rnd (Some alpha)
                   (RealType_add rnd (Train_reward rnd g' pushed (Finished g) rp pr gr fp sr)
                      (RealType_mul rnd (Some gamma) (Some bootstrap)))) = Some v"
  shows "legal_directions (Directions g') \<noteq> []
      \<and> Train_max_Q rnd Q g' rp fp gr = Some bootstrap
      \<and> (\<exists>res Q'.
            Train rnd ur ui rng g Q eps alpha gamma rp pr gr fp sr = Some (res, rng1, g', Q')
            \<and> Get Q' (State g) a = v)"
proof -
  from reachable_nonterminal_Directions [OF assms(1-3)]
  have le: "Directions g \<le> 15" and ne: "Directions g \<noteq> 0" by simp_all
  from FindAction_legal [OF le ne ui, of ur rng eps Q] fa
  have legal: "a \<in> set (legal_directions (Directions g))" by simp
  then have unit: "a \<in> {Up, Left, Right, Down}" using legal_directions_units by blast
  from legal have and_ne: "Directions g AND a \<noteq> 0" by (rule legal_directions_and)
  from mv have dm: "DoMove g a = (pushed, g')" by (simp add: Move_def)
  note sb = step_back_legal [OF reachable_inv [OF assms(1)] and_ne unit dm]
  from fl have fl': "RealType_neg (RealType_add rnd (RealType_add rnd (Some rp) (Some fp))
               (RealType_mul rnd (Some gr) (rnd (of_nat (card (BoxPos0 g')))))) = Some x"
    by (simp only: sb(2))
  have mq: "Train_max_Q rnd Q g' rp fp gr = Some bootstrap"
    unfolding Train_max_Q_eq [OF fl'] bs using sb(1) by simp
  have tr: "Train rnd ur ui rng g Q eps alpha gamma rp pr gr fp sr =
     Some (\<lparr>Action = a, LastState = State g, OldRow = GetRow Q (State g),
            NewRow = GetRow (Set Q (State g) a v) (State g)\<rparr>, rng1, g', Set Q (State g) a v)"
    by (rule Train_step [OF assms(2,3) fa mv]) (simp only: mq val)
  have same: "Get (Set Q (State g) a v) (State g) a = v" by (rule Get_Set_same [OF unit])
  from tr same have "\<exists>res Q'.
      Train rnd ur ui rng g Q eps alpha gamma rp pr gr fp sr = Some (res, rng1, g', Q')
      \<and> Get Q' (State g) a = v"
    by blast
  with sb(1) mq show ?thesis by blast
qed

lemma float32_values_low:
  "float32 (- 1051) = Some (- 1051)"
  "float32 (- 5000) = Some (- 5000)"
  "float32 (- (1 / 2)) = Some (- (1 / 2))"
  "float32 (- (1 / 4)) = Some (- (1 / 4))"
  "float32 (- (7899 / 2)) = Some (- (7899 / 2))"
  "float32 (- (7899 / 4)) = Some (- (7899 / 4))"
  by code_simp+

lemma game_row_low:
  "legal_directions (Directions game_row_won) = [Left]"
  "Get Q_low (State game_row_won) Left = - 5000"
  "Get Q_low (State game_row) Right = 0"
  "Train_reward float32 game_row_won True (Finished game_row) 1 (1 / 2) 50 1000 1000 = Some (2101 / 2)"
  "RealType_neg (RealType_add float32 (RealType_add float32 (Some 1) (Some 1000))
     (RealType_mul float32 (Some 50) (float32 (of_nat (card (BoxPos0 game_row)))))) = Some (- 1051)"
  "RealType_neg (RealType_add float32 (RealType_add float32 (Some 1) (Some 1000))
     (RealType_mul float32 (Some 50) (float32 (of_nat (card (BoxPos0 game_row_won)))))) = Some (- 1051)"
proof -
  show "legal_directions (Directions game_row_won) = [Left]"
    by (simp add: legal_directions_def game_row_won_def Up_def Left_def Right_def Down_def)
  show "Get Q_low (State game_row_won) Left = - 5000"
    by (simp add: Get_def Q_low_def game_row_won_def Up_def Left_def)
  show "Get Q_low (State game_row) Right = 0"
    by (simp add: Get_def Q_low_def game_row_def)
  show "Train_reward float32 game_row_won True (Finished game_row) 1 (1 / 2) 50 1000 1000 = Some (2101 / 2)"
    by (simp add: Train_reward_def game_row_def game_row_won_def RealType_add_def RealType_mul_def
        float32_values)
  show "RealType_neg (RealType_add float32 (RealType_add float32 (Some 1) (Some 1000))
     (RealType_mul float32 (Some 50) (float32 (of_nat (card (BoxPos0 game_row)))))) = Some (- 1051)"
    by (simp add: game_row_def RealType_neg_def RealType_add_def RealType_mul_def float32_values)
  show "RealType_neg (RealType_add float32 (RealType_add float32 (Some 1) (Some 1000))
     (RealType_mul float32 (Some 50) (float32 (of_nat (card (BoxPos0 game_row_won)))))) = Some (- 1051)"
    by (simp add: game_row_won_def RealType_neg_def RealType_add_def RealType_mul_def float32_values)
qed

theorem Train_bootstrap_witness:
  "reachable game_row \<and> \<not> Succeeded game_row \<and> \<not> Failed game_row
   \<and> FindAction draw_half draw_low 0 (1 / 20) game_row Q_low = (Right, 0)
   \<and> Move game_row Right = (True, game_row_won)
   \<and> legal_directions (Directions game_row_won) = [Left]
   \<and> Get Q_low (State game_row_won) Left = - 5000
   \<and> Train_max_Q float32 Q_low game_row_won 1 1000 50 = Some (- 1051)
   \<and> (\<exists>res Q'.
        Train float32 draw_half draw_low 0 game_row Q_low (1 / 20) (1 / 2) 1 1 (1 / 2) 50 1000 1000
          = Some (res, 0, game_row_won, Q')
        \<and> Get Q' (State game_row) Right = - 1 / 4)"
proof -
  have nt: "\<not> Succeeded game_row" "\<not> Failed game_row" by (simp_all add: game_row_def)
  have bs: "- 1051 = max (- 1051) (Max (Get Q_low (State game_row_won) ` set (legal_directions (Directions game_row_won))))"
    by (simp add: game_row_low)
  have val: "RealType_add float32
                (RealType_mul float32 (RealType_sub float32 (float32 1) (Some (1 / 2)))
                   (Some (Get Q_low (State game_row) Right)))
                (RealType_mul float32 (Some (1 / 2))
                   (RealType_add float32 (Train_reward float32 game_row_won True (Finished game_row) 1 (1 / 2) 50 1000 1000)
                      (RealType_mul float32 (Some 1) (Some (- 1051))))) = Some (- 1 / 4)"
    by (simp add: game_row_low RealType_add_def RealType_mul_def RealType_sub_def float32_values
        float32_values_low)
  from Train_bootstrap [OF reachable_game_row nt draw_low_range FindAction_game_row Move_game_row
      game_row_low(5) bs val]
  have "Train_max_Q float32 Q_low game_row_won 1 1000 50 = Some (- 1051)
      \<and> (\<exists>res Q'.
        Train float32 draw_half draw_low 0 game_row Q_low (1 / 20) (1 / 2) 1 1 (1 / 2) 50 1000 1000
          = Some (res, 0, game_row_won, Q')
        \<and> Get Q' (State game_row) Right = - 1 / 4)"
    by blast
  with reachable_game_row nt FindAction_game_row Move_game_row game_row_low(1,2)
  show ?thesis by blast
qed

text \<open>
  C6 as stated fails: from \<open>game_row\<close> the only action is \<open>Right\<close>; afterwards \<open>Left\<close>
  is legal and its Q-value \<open>-5000\<close> is the maximum over the legal directions, but
  the bootstrap value is the floor \<open>-1051\<close>, and the value stored is \<open>-1/4\<close> where
  the maximum over the legal directions would give \<open>-7899/4\<close>.
\<close>

theorem Train_bootstrap_counterexample:
  "\<not> Succeeded game_row \<and> \<not> Failed game_row
   \<and> FindAction draw_half draw_low 0 (1 / 20) game_row Q_low = (Right, 0)
   \<and> Move game_row Right = (True, game_row_won)
   \<and> legal_directions (Directions game_row_won) \<noteq> []
   \<and> Max (Get Q_low (State game_row_won) ` set (legal_directions (Directions game_row_won))) = - 5000
   \<and> Train_max_Q float32 Q_low game_row_won 1 1000 50 = Some (- 1051)
   \<and> (\<exists>res Q'.
        Train float32 draw_half draw_low 0 game_row Q_low (1 / 20) (1 / 2) 1 1 (1 / 2) 50 1000 1000
          = Some (res, 0, game_row_won, Q')
        \<and> Get Q' (State game_row) Right = - 1 / 4)
   \<and> RealType_add float32
        (RealType_mul float32 (RealType_sub float32 (float32 1) (Some (1 / 2)))
           (Some (Get Q_low (State game_row) Right)))
        (RealType_mul float32 (Some (1 / 2))
           (RealType_add float32 (Train_reward float32 game_row_won True (Finished game_row) 1 (1 / 2) 50 1000 1000)
              (RealType_mul float32 (Some 1)
                 (Some (Max (Get Q_low (State game_row_won) ` set (legal_directions (Directions game_row_won))))))))
      = Some (- 7899 / 4)"
proof -
  have nt: "\<not> Succeeded game_row" "\<not> Failed game_row" by (simp_all add: game_row_def)
  have mx: "Max (Get Q_low (State game_row_won) ` set (legal_directions (Directions game_row_won))) = - 5000"
    by (simp add: game_row_low)
  have mq: "Train_max_Q float32 Q_low game_row_won 1 1000 50 = Some (- 1051)"
    unfolding Train_max_Q_eq [OF game_row_low(6)] by (simp add: game_row_low)
  have val: "RealType_add float32
                (RealType_mul float32 (RealType_sub float32 (float32 1) (Some (1 / 2)))
                   (Some (Get Q_low (State game_row) Right)))
                (RealType_mul float32 (Some (1 / 2))
                   (RealType_add float32 (Train_reward float32 game_row_won True (Finished game_row) 1 (1 / 2) 50 1000 1000)
                      (RealType_mul float32 (Some 1) (Train_max_Q float32 Q_low game_row_won 1 1000 50))))
             = Some (- 1 / 4)"
    unfolding mq
    by (simp add: game_row_low RealType_add_def RealType_mul_def RealType_sub_def float32_values
        float32_values_low)
  have same: "Get (Set Q_low (State game_row) Right (- 1 / 4)) (State game_row) Right = - 1 / 4"
    by (rule Get_Set_same) simp
  from Train_step [OF nt FindAction_game_row Move_game_row val] same
  have tr: "\<exists>res Q'.
        Train float32 draw_half draw_low 0 game_row Q_low (1 / 20) (1 / 2) 1 1 (1 / 2) 50 1000 1000
          = Some (res, 0, game_row_won, Q')
        \<and> Get Q' (State game_row) Right = - 1 / 4"
    by blast
  have claimed: "RealType_add float32
        (RealType_mul float32 (RealType_sub float32 (float32 1) (Some (1 / 2)))
           (Some (Get Q_low (State game_row) Right)))
        (RealType_mul float32 (Some (1 / 2))
           (RealType_add float32 (Train_reward float32 game_row_won True (Finished game_row) 1 (1 / 2) 50 1000 1000)
              (RealType_mul float32 (Some 1)
                 (Some (Max (Get Q_low (State game_row_won) ` set (legal_directions (Directions game_row_won))))))))
      = Some (- 7899 / 4)"
    unfolding mx
    by (simp add: game_row_low RealType_add_def RealType_mul_def RealType_sub_def float32_values
        float32_values_low)
  have ne: "legal_directions (Directions game_row_won) \<noteq> []" by (simp add: game_row_low)
  from nt FindAction_game_row Move_game_row ne mx mq tr claimed
  show ?thesis by blast
qed

end
